theory Spec2Isabelle
  imports Complex_Main "HOL-Library.Multiset"
begin

section \<open>Dense matrices\<close>

text \<open>
  A matrix is the list of its rows; NumPy's float64 entries are modelled as exact reals.
  A matrix of shape \<open>m \<times> n\<close> with \<open>m > 0\<close> is a list of \<open>m\<close> rows of length \<open>n\<close>.
  A matrix without rows is \<open>[]\<close>, whatever its number of columns in NumPy, and \<open>ncols\<close>
  is 0 for it. The blocks of rows that \<open>train\<close> and inference select for a fold have a
  row whenever the fold has an index, which holds for every fold of a layer that the
  constructor returns.
\<close>

type_synonym vec = "real list"
type_synonym mat = "real list list"

datatype error =
    AssertionError
  | ZeroDivisionError
  | IndexError
  | ValueError
  | TypeError
  | UnboundLocalError

definition ncols :: "mat \<Rightarrow> nat" where
  "ncols A = (case A of [] \<Rightarrow> 0 | r # _ \<Rightarrow> length r)"

definition shape :: "mat \<Rightarrow> nat \<times> nat" where
  "shape A = (length A, ncols A)"

definition is_mat :: "nat \<Rightarrow> nat \<Rightarrow> mat \<Rightarrow> bool" where
  "is_mat m n A = (length A = m \<and> list_all (\<lambda>r. length r = n) A)"

definition zeros :: "nat \<Rightarrow> nat \<Rightarrow> mat" where
  "zeros m n = replicate m (replicate n 0)"

definition mat_T :: "mat \<Rightarrow> mat" where
  "mat_T A = map (\<lambda>j. map (\<lambda>r. r ! j) A) [0..<ncols A]"

text \<open>\<open>A.dot(B)\<close> where the inner dimensions agree by construction of the operands.\<close>

definition dot :: "mat \<Rightarrow> mat \<Rightarrow> mat" where
  "dot A B = map (\<lambda>r. map (\<lambda>j. (\<Sum>k\<leftarrow>[0..<length B]. r ! k * B ! k ! j)) [0..<ncols B]) A"

text \<open>\<open>np.dot(A, B)\<close> on operands of any shape: NumPy raises when the inner dimensions differ.\<close>

definition np_dot :: "mat \<Rightarrow> mat \<Rightarrow> error + mat" where
  "np_dot A B = (if list_all (\<lambda>r. length r = length B) A then Inr (dot A B) else Inl ValueError)"

definition mat_scale :: "real \<Rightarrow> mat \<Rightarrow> mat" where
  "mat_scale c A = map (map (\<lambda>x. c * x)) A"

text \<open>
  Element-wise operations on two matrices. Operands of one shape are combined entry by
  entry; operands of different shapes are reported as \<open>ValueError\<close> (NumPy raises it
  unless the differing extent of one operand is 1, which no matrix of a layer built by
  \<open>train\<close> has).
\<close>

definition mat_plus :: "mat \<Rightarrow> mat \<Rightarrow> mat" where
  "mat_plus A B = map2 (map2 (\<lambda>x y. x + y)) A B"

definition mat_minus :: "mat \<Rightarrow> mat \<Rightarrow> mat" where
  "mat_minus A B = map2 (map2 (\<lambda>x y. x - y)) A B"

definition mat_add :: "mat \<Rightarrow> mat \<Rightarrow> error + mat" where
  "mat_add A B = (if shape A = shape B then Inr (mat_plus A B) else Inl ValueError)"

definition mat_sub :: "mat \<Rightarrow> mat \<Rightarrow> error + mat" where
  "mat_sub A B = (if shape A = shape B then Inr (mat_minus A B) else Inl ValueError)"

text \<open>\<open>M[idxs]\<close>: the rows of \<open>M\<close> at the given indices, in that order.\<close>

definition select_rows :: "mat \<Rightarrow> nat list \<Rightarrow> error + mat" where
  "select_rows M idxs =
     (if list_all (\<lambda>i. i < length M) idxs then Inr (map (\<lambda>i. M ! i) idxs) else Inl IndexError)"

definition set_entry :: "mat \<Rightarrow> nat \<Rightarrow> nat \<Rightarrow> real \<Rightarrow> mat" where
  "set_entry A i j v = A[i := (A ! i)[j := v]]"

section \<open>The layer\<close>

record layer =
  noise :: real
  lambda' :: real
  input_dimensionality :: nat
  output_dimensionality :: nat
  randomized_indices :: "nat list"
  prototype_ids :: "nat list option"
  num_folds :: nat
  blocks :: "mat list"

text \<open>
  \<open>mDALayer.__init__\<close>. The first argument is the value that
  \<open>np.random.permutation(input_dimensionality)\<close> returns when it is called. Dimensions are
  counts (\<open>nat\<close>); below \<open>2^53\<close> the float division of line 59 is exact enough for the
  ceiling to be the ceiling of the exact quotient. Dividing by an output dimensionality of
  0 raises.
\<close>

definition mDALayer_init ::
  "nat list \<Rightarrow> real \<Rightarrow> real \<Rightarrow> nat \<Rightarrow> nat option \<Rightarrow> nat list option \<Rightarrow> error + layer" where
  "mDALayer_init perm noise' lam input_dim output_dim proto =
     (let (out, idxs) =
            (if output_dim = None \<or> output_dim = Some input_dim
             then (input_dim, [0..<input_dim])
             else (the output_dim, perm))
      in if out = 0 then Inl ZeroDivisionError
         else Inr \<lparr> noise = noise', lambda' = lam,
                    input_dimensionality = input_dim,
                    output_dimensionality = out,
                    randomized_indices = idxs,
                    prototype_ids = proto,
                    num_folds = nat \<lceil>real input_dim / real out\<rceil>,
                    blocks = [] \<rparr>)"

text \<open>
  \<open>randomized_indices[k * output_dimensionality : (k + 1) * output_dimensionality]\<close>;
  a Python slice stops at the end of the sequence.
\<close>

definition block_indices :: "layer \<Rightarrow> nat \<Rightarrow> nat list" where
  "block_indices L k =
     take (output_dimensionality L) (drop (k * output_dimensionality L) (randomized_indices L))"

section \<open>Iterating the corpus\<close>

text \<open>
  A document is a sparse term-count vector: \<open>d i\<close> is the count of term \<open>i\<close>, 0 where the
  vector has no entry.
\<close>

type_synonym doc = "nat \<Rightarrow> real"

text \<open>
  Modelled from the spec: \<open>gensim.utils.grouper\<close>, which is not part of the repository.
  It groups a sequence into consecutive groups of the chunk size, the last group possibly
  shorter, and yields no empty group.
\<close>

function grouper :: "'a list \<Rightarrow> nat \<Rightarrow> 'a list list" where
  "grouper xs n = (if n = 0 \<or> xs = [] then [] else take n xs # grouper (drop n xs) n)"
  by pat_completeness auto
termination
  by (relation "measure (\<lambda>(xs, n). length xs)") auto

declare grouper.simps [simp del]

text \<open>
  Modelled from the spec: \<open>gensim.matutils.corpus2csc\<close>, which is not part of the
  repository. It converts a group of documents into the matrix of shape
  \<open>num_terms \<times> len(chunk)\<close> whose column \<open>j\<close> is document \<open>j\<close>.
\<close>

definition corpus2csc :: "doc list \<Rightarrow> nat \<Rightarrow> mat" where
  "corpus2csc chunk num_terms = map (\<lambda>i. map (\<lambda>d. d i) chunk) [0..<num_terms]"

text \<open>
  \<open>FilteringDualGrouper.__iter__\<close>: the generator as the list of what it yields. An
  element \<open>Inl e\<close> is a chunk whose materialisation raises \<open>e\<close>; the consumer stops there.
\<close>

definition FilteringDualGrouper_iter ::
  "doc list \<Rightarrow> nat \<Rightarrow> nat list option \<Rightarrow> nat \<Rightarrow> (error + mat \<times> mat option) list" where
  "FilteringDualGrouper_iter corpus num_terms filter_dimensions chunksize =
     map (\<lambda>chunk.
            let job = corpus2csc chunk num_terms
            in case filter_dimensions of
                 None \<Rightarrow> Inr (job, None)
               | Some ids \<Rightarrow>
                   (case select_rows job ids of
                      Inl e \<Rightarrow> Inl e
                    | Inr filtered \<Rightarrow> Inr (job, Some filtered)))
         (grouper corpus chunksize)"

section \<open>Training: accumulating the scatter and P matrices\<close>

text \<open>
  The body of the loop over \<open>dim_batch_idx\<close> (lines 81 to 109). The state is the list
  \<open>scatters_and_P_matrices\<close>. \<open>input_chunk\<close> is the result of \<open>scipy.sparse.vstack\<close>, so the
  right operands of \<open>scatter += ...\<close> (line 102) and \<open>P += ...\<close> (line 109) are scipy sparse
  matrices: the ndarray's in-place addition gives way to the sparse matrix's reflected
  addition, which returns a new dense matrix, and \<open>+=\<close> binds the local name to it. The
  matrices that line 94 stored in the list are not changed. The additions still raise
  when the shapes of the operands differ.
\<close>

definition fold_step ::
  "layer \<Rightarrow> mat \<Rightarrow> mat option \<Rightarrow> (mat \<times> mat option) list \<Rightarrow> nat
     \<Rightarrow> error + (mat \<times> mat option) list" where
  "fold_step L doc_chunk target_representation_chunk st dim_batch_idx =
     (let idxs = block_indices L dim_batch_idx
      in case select_rows doc_chunk idxs of
           Inl e \<Rightarrow> Inl e
         | Inr block_data \<Rightarrow>
             (let fresh = (length st \<le> dim_batch_idx);
                  (scatter, P) =
                    (if fresh
                     then (zeros (length idxs + 1) (length idxs + 1),
                           (case target_representation_chunk of
                              Some _ \<Rightarrow> Some (zeros (output_dimensionality L) (length idxs + 1))
                            | None \<Rightarrow> None))
                     else st ! dim_batch_idx);
                  st1 = (if fresh then st @ [(scatter, P)] else st);
                  blocksize = ncols block_data;
                  bias = [replicate blocksize 1];
                  input_chunk = block_data @ bias
              in case mat_add scatter (dot input_chunk (mat_T input_chunk)) of
                   Inl e \<Rightarrow> Inl e
                 | Inr scatter' \<Rightarrow>
                     (case target_representation_chunk of
                        None \<Rightarrow> Inr st1
                      | Some T \<Rightarrow>
                          (case P of
                             None \<Rightarrow> Inl TypeError
                           | Some Pm \<Rightarrow>
                               (case mat_add Pm (dot T (mat_T input_chunk)) of
                                  Inl e \<Rightarrow> Inl e
                                | Inr P' \<Rightarrow> Inr st1)))))"

text \<open>
  The matrix that the local name \<open>scatter\<close> is bound to after line 102, in the same
  iteration.
\<close>

definition scatter_after_update ::
  "layer \<Rightarrow> mat \<Rightarrow> (mat \<times> mat option) list \<Rightarrow> nat \<Rightarrow> error + mat" where
  "scatter_after_update L doc_chunk st dim_batch_idx =
     (let idxs = block_indices L dim_batch_idx
      in case select_rows doc_chunk idxs of
           Inl e \<Rightarrow> Inl e
         | Inr block_data \<Rightarrow>
             (let scatter =
                    (if length st \<le> dim_batch_idx
                     then zeros (length idxs + 1) (length idxs + 1)
                     else fst (st ! dim_batch_idx));
                  blocksize = ncols block_data;
                  bias = [replicate blocksize 1];
                  input_chunk = block_data @ bias
              in mat_add scatter (dot input_chunk (mat_T input_chunk))))"

fun fold_loop ::
  "layer \<Rightarrow> mat \<Rightarrow> mat option \<Rightarrow> (mat \<times> mat option) list \<Rightarrow> nat list
     \<Rightarrow> error + (mat \<times> mat option) list" where
  "fold_loop L doc_chunk target st [] = Inr st"
| "fold_loop L doc_chunk target st (k # ks) =
     (case fold_step L doc_chunk target st k of
        Inl e \<Rightarrow> Inl e
      | Inr st' \<Rightarrow> fold_loop L doc_chunk target st' ks)"

text \<open>
  One chunk (lines 80 to 113). \<open>processed += blocksize\<close> only feeds the log, but
  \<open>blocksize\<close> is unbound when the loop over the folds ran no iteration.
\<close>

definition chunk_step ::
  "layer \<Rightarrow> (mat \<times> mat option) list \<Rightarrow> mat \<times> mat option \<Rightarrow> error + (mat \<times> mat option) list" where
  "chunk_step L st chunk =
     (case fold_loop L (fst chunk) (snd chunk) st [0..<num_folds L] of
        Inl e \<Rightarrow> Inl e
      | Inr st' \<Rightarrow> if num_folds L = 0 then Inl UnboundLocalError else Inr st')"

fun scatter_loop ::
  "layer \<Rightarrow> (mat \<times> mat option) list \<Rightarrow> (error + mat \<times> mat option) list
     \<Rightarrow> error + (mat \<times> mat option) list" where
  "scatter_loop L st [] = Inr st"
| "scatter_loop L st (Inl e # rest) = Inl e"
| "scatter_loop L st (Inr chunk # rest) =
     (case chunk_step L st chunk of
        Inl e \<Rightarrow> Inl e
      | Inr st' \<Rightarrow> scatter_loop L st' rest)"

text \<open>Lines 73 to 113: the full pass over the corpus.\<close>

definition build_scatters :: "layer \<Rightarrow> doc list \<Rightarrow> nat \<Rightarrow> error + (mat \<times> mat option) list" where
  "build_scatters L corpus chunksize =
     scatter_loop L []
       (FilteringDualGrouper_iter corpus (input_dimensionality L) (prototype_ids L) chunksize)"

section \<open>Training: solving for the weights\<close>

text \<open>
  Lines 151 to 170 of \<open>_computeWeights\<close>: the matrix \<open>Q\<close>. \<open>scatter\<close> is square here,
  of shape \<open>(r_dim + 1) \<times> (r_dim + 1)\<close>, in every call that \<open>train\<close> makes, so every index
  below is in range. \<open>1.0 / (1 - noise)\<close> raises when \<open>noise\<close> is 1.
\<close>

definition computeQ :: "real \<Rightarrow> mat \<Rightarrow> error + mat" where
  "computeQ noise' scatter =
     (let r_dim = length scatter - 1;
          corruption = (replicate (r_dim + 1) (1 * (1 - noise')))[r_dim := 1];
          Q0 = map (map (\<lambda>x. x * (1 - noise')\<^sup>2)) scatter
      in if noise' = 1 then Inl ZeroDivisionError
         else
           (let Q1 = Q0[r_dim := map (\<lambda>x. x * (1 / (1 - noise'))) (scatter ! r_dim)];
                Q2 = map2 (\<lambda>q s. q[r_dim := s ! r_dim * (1 / (1 - noise'))]) Q1 scatter;
                Q3 = set_entry Q2 (length scatter - 1) (ncols scatter - 1)
                       (scatter ! (length scatter - 1) ! (ncols scatter - 1)
                          * (1 / (1 - noise')\<^sup>2));
                idxs = [0..<r_dim + 1];
                Q4 = fold (\<lambda>i Q. set_entry Q i i (corruption ! i * scatter ! i ! i)) idxs Q3
            in Inr Q4))"

text \<open>Lines 172 to 174: the regularisation matrix.\<close>

definition reg_matrix :: "real \<Rightarrow> nat \<Rightarrow> mat" where
  "reg_matrix lam r_dim =
     set_entry
       (map (\<lambda>i. map (\<lambda>j. (if i = j then 1 else 0) * lam) [0..<r_dim + 1]) [0..<r_dim + 1])
       r_dim r_dim 0"

text \<open>
  \<open>np.linalg.lstsq\<close> is NumPy's; \<open>_computeWeights\<close> takes it as a parameter here:
  \<open>lstsq A B\<close> stands for \<open>np.linalg.lstsq(A, B)[0]\<close>.
\<close>

type_synonym solver = "mat \<Rightarrow> mat \<Rightarrow> mat"

definition computeWeights :: "solver \<Rightarrow> layer \<Rightarrow> mat \<Rightarrow> mat \<Rightarrow> error + mat" where
  "computeWeights lstsq L scatter P =
     (let r_dim = length scatter - 1
      in case computeQ (noise L) scatter of
           Inl e \<Rightarrow> Inl e
         | Inr Q \<Rightarrow>
             (case mat_add Q (reg_matrix (lambda' L) r_dim) of
                Inl e \<Rightarrow> Inl e
              | Inr Qreg \<Rightarrow> Inr (mat_T (lstsq Qreg (mat_T P)))))"

text \<open>Line 124, \<open>P[:, :-1] *= (1 - noise)\<close>: every column but the last is scaled.\<close>

definition apply_noise :: "real \<Rightarrow> mat \<Rightarrow> mat" where
  "apply_noise noise' P =
     map (\<lambda>row. map (\<lambda>x. x * (1 - noise')) (butlast row) @ (if row = [] then [] else [last row])) P"

text \<open>Lines 121 to 128: the weights of one fold.\<close>

definition fold_weights :: "solver \<Rightarrow> layer \<Rightarrow> mat \<times> mat option \<Rightarrow> error + mat" where
  "fold_weights lstsq L sp =
     (let scatter_matrix = fst sp;
          P0 = (case snd sp of None \<Rightarrow> scatter_matrix | Some Pm \<Rightarrow> Pm);
          P1 = apply_noise (noise L) P0
      in computeWeights lstsq L scatter_matrix P1)"

text \<open>Lines 120 to 132: one weight matrix per accumulated fold, appended to \<open>blocks\<close>.\<close>

fun weights_loop :: "solver \<Rightarrow> layer \<Rightarrow> (mat \<times> mat option) list \<Rightarrow> error + layer" where
  "weights_loop lstsq L [] = Inr L"
| "weights_loop lstsq L (sp # rest) =
     (case fold_weights lstsq L sp of
        Inl e \<Rightarrow> Inl e
      | Inr weights \<Rightarrow> weights_loop lstsq (L\<lparr>blocks := blocks L @ [weights]\<rparr>) rest)"

text \<open>
  \<open>mDALayer.train\<close>, first over the sequence that \<open>dualIterator\<close> yields when the loop of
  line 78 pulls from it (\<open>Inl e\<close> where pulling a chunk raises \<open>e\<close>), then with the iterator
  that line 77 builds over the corpus.
\<close>

definition train_over :: "solver \<Rightarrow> layer \<Rightarrow> (error + mat \<times> mat option) list \<Rightarrow> error + layer" where
  "train_over lstsq L dualIterator =
     (if input_dimensionality L \<noteq> output_dimensionality L \<and> prototype_ids L = None
      then Inl AssertionError
      else case scatter_loop L [] dualIterator of
             Inl e \<Rightarrow> Inl e
           | Inr sps \<Rightarrow> weights_loop lstsq L sps)"

definition train :: "solver \<Rightarrow> layer \<Rightarrow> doc list \<Rightarrow> nat \<Rightarrow> error + layer" where
  "train lstsq L corpus chunksize =
     train_over lstsq L
       (FilteringDualGrouper_iter corpus (input_dimensionality L) (prototype_ids L) chunksize)"

section \<open>Inference\<close>

definition get_intermediate_representations :: "mat \<Rightarrow> mat \<Rightarrow> error + mat" where
  "get_intermediate_representations block_weights block_input_data =
     (let num_documents = ncols block_input_data;
          bias = [replicate num_documents 1]
      in np_dot block_weights (block_input_data @ bias))"

text \<open>The hidden representation of one fold (lines 215 to 220).\<close>

definition block_hidden :: "layer \<Rightarrow> mat \<Rightarrow> nat \<Rightarrow> error + mat" where
  "block_hidden L input_data dim_batch_idx =
     (case select_rows input_data (block_indices L dim_batch_idx) of
        Inl e \<Rightarrow> Inl e
      | Inr block_data \<Rightarrow>
          if dim_batch_idx < length (blocks L)
          then get_intermediate_representations (blocks L ! dim_batch_idx) block_data
          else Inl IndexError)"

text \<open>
  Line 224: \<open>representation_avg += (1.0 / (dim_batch_idx + 1)) * (block_hidden - representation_avg)\<close>.
\<close>

definition avg_update :: "nat \<Rightarrow> mat \<Rightarrow> mat \<Rightarrow> error + mat" where
  "avg_update dim_batch_idx representation_avg hidden =
     (case mat_sub hidden representation_avg of
        Inl e \<Rightarrow> Inl e
      | Inr diff \<Rightarrow> mat_add representation_avg (mat_scale (1 / (real dim_batch_idx + 1)) diff))"

fun hidden_loop :: "layer \<Rightarrow> mat \<Rightarrow> mat option \<Rightarrow> nat list \<Rightarrow> error + mat option" where
  "hidden_loop L input_data representation_avg [] = Inr representation_avg"
| "hidden_loop L input_data representation_avg (k # ks) =
     (case block_hidden L input_data k of
        Inl e \<Rightarrow> Inl e
      | Inr hidden \<Rightarrow>
          (case representation_avg of
             None \<Rightarrow> hidden_loop L input_data (Some hidden) ks
           | Some avg \<Rightarrow>
               (case avg_update k avg hidden of
                  Inl e \<Rightarrow> Inl e
                | Inr avg' \<Rightarrow> hidden_loop L input_data (Some avg') ks)))"

text \<open>
  \<open>mDALayer._get_hidden_representations\<close> in exact arithmetic; \<open>np.tanh(None)\<close> raises.
\<close>

definition get_hidden_representations :: "layer \<Rightarrow> mat \<Rightarrow> error + mat" where
  "get_hidden_representations L input_data =
     (case hidden_loop L input_data None [0..<num_folds L] of
        Inl e \<Rightarrow> Inl e
      | Inr None \<Rightarrow> Inl TypeError
      | Inr (Some representation_avg) \<Rightarrow> Inr (map (map tanh) representation_avg))"

text \<open>
  The same with the float64 values of line 225. The nearest double of a real number
  whose magnitude is in the normal range of float64 has 53 significant bits, ties going
  to the even neighbour; overflow and subnormal numbers are not modelled. \<open>np.tanh\<close> is
  taken as the value of \<open>tanh\<close> rounded to the nearest double.
\<close>

definition round_nearest_even :: "real \<Rightarrow> int" where
  "round_nearest_even q =
     (let f = \<lfloor>q\<rfloor>
      in if q - of_int f < 1 / 2 then f
         else if 1 / 2 < q - of_int f then f + 1
         else if even f then f else f + 1)"

definition round_float64 :: "real \<Rightarrow> real" where
  "round_float64 x =
     (if x = 0 then 0
      else (let e = \<lfloor>log 2 \<bar>x\<bar>\<rfloor>;
                ulp = 2 powr (of_int e - 52)
            in ulp * of_int (round_nearest_even (x / ulp))))"

definition np_tanh :: "real \<Rightarrow> real" where
  "np_tanh x = round_float64 (tanh x)"

definition get_hidden_representations_float64 :: "layer \<Rightarrow> mat \<Rightarrow> error + mat" where
  "get_hidden_representations_float64 L input_data =
     (case hidden_loop L input_data None [0..<num_folds L] of
        Inl e \<Rightarrow> Inl e
      | Inr None \<Rightarrow> Inl TypeError
      | Inr (Some representation_avg) \<Rightarrow> Inr (map (map np_tanh) representation_avg))"

section \<open>Reference notions of the specification\<close>

text \<open>
  The dimension permutation: every index below \<open>n\<close> exactly once.
\<close>

definition is_permutation :: "nat \<Rightarrow> nat list \<Rightarrow> bool" where
  "is_permutation n idxs = (length idxs = n \<and> distinct idxs \<and> list_all (\<lambda>i. i < n) idxs)"

text \<open>
  A layer as the constructor leaves it, for a noise level below 1: a positive output
  dimensionality, the fold count of line 59, a permutation of the input dimensions, and
  target dimensions that are input dimensions, as many as the output dimensionality.
\<close>

definition well_formed :: "layer \<Rightarrow> bool" where
  "well_formed L =
     (0 < input_dimensionality L \<and> 0 < output_dimensionality L
      \<and> num_folds L = nat \<lceil>real (input_dimensionality L) / real (output_dimensionality L)\<rceil>
      \<and> is_permutation (input_dimensionality L) (randomized_indices L)
      \<and> (case prototype_ids L of
            None \<Rightarrow> input_dimensionality L = output_dimensionality L
          | Some ids \<Rightarrow> length ids = output_dimensionality L
                        \<and> list_all (\<lambda>i. i < input_dimensionality L) ids)
      \<and> 0 \<le> noise L \<and> noise L < 1)"

definition outer :: "vec \<Rightarrow> vec \<Rightarrow> mat" where
  "outer u v = map (\<lambda>a. map (\<lambda>b. a * b) v) u"

definition mat_sum :: "nat \<Rightarrow> nat \<Rightarrow> mat list \<Rightarrow> mat" where
  "mat_sum m n Ms = foldr mat_plus Ms (zeros m n)"

text \<open>The augmented feature vector of a document for fold \<open>k\<close>: the fold's values, then the bias 1.\<close>

definition aug_doc :: "layer \<Rightarrow> nat \<Rightarrow> doc \<Rightarrow> vec" where
  "aug_doc L k d = map d (block_indices L k) @ [1]"

text \<open>The sum over the documents of the outer product of the augmented vector with itself.\<close>

definition exact_scatter :: "layer \<Rightarrow> nat \<Rightarrow> doc list \<Rightarrow> mat" where
  "exact_scatter L k docs =
     mat_sum (length (block_indices L k) + 1) (length (block_indices L k) + 1)
       (map (\<lambda>d. outer (aug_doc L k d) (aug_doc L k d)) docs)"

text \<open>
  The sum over the documents of the outer product of the target representation (the
  document restricted to the target dimensions) with the augmented vector.
\<close>

definition exact_P :: "layer \<Rightarrow> nat \<Rightarrow> doc list \<Rightarrow> mat option" where
  "exact_P L k docs =
     (case prototype_ids L of
        None \<Rightarrow> None
      | Some ids \<Rightarrow>
          Some (mat_sum (length ids) (length (block_indices L k) + 1)
                  (map (\<lambda>d. outer (map d ids) (aug_doc L k d)) docs)))"

definition exact_state :: "layer \<Rightarrow> doc list \<Rightarrow> (mat \<times> mat option) list" where
  "exact_state L docs = map (\<lambda>k. (exact_scatter L k docs, exact_P L k docs)) [0..<num_folds L]"

text \<open>Symmetry and positive semi-definiteness of a square matrix.\<close>

definition symmetric :: "mat \<Rightarrow> bool" where
  "symmetric S = (mat_T S = S)"

definition quad_form :: "mat \<Rightarrow> vec \<Rightarrow> real" where
  "quad_form S v = (\<Sum>i\<leftarrow>[0..<length S]. \<Sum>j\<leftarrow>[0..<length S]. v ! i * S ! i ! j * v ! j)"

definition psd :: "mat \<Rightarrow> bool" where
  "psd S = (\<forall>v. length v = length S \<longrightarrow> 0 \<le> quad_form S v)"

definition scatters_ok :: "(mat \<times> mat option) list \<Rightarrow> bool" where
  "scatters_ok st = (\<forall>sp \<in> set st. symmetric (fst sp) \<and> psd (fst sp))"

text \<open>
  The states of \<open>scatters_and_P_matrices\<close> during accumulation: the empty list that line
  73 creates, and what an update of one fold for one chunk makes of such a state.
\<close>

inductive accumulating :: "layer \<Rightarrow> (mat \<times> mat option) list \<Rightarrow> bool" for L where
  start: "accumulating L []"
| update: "accumulating L st \<Longrightarrow> fold_step L doc_chunk target st k = Inr st'
           \<Longrightarrow> accumulating L st'"

text \<open>
  The regularisation matrix in the specification's words: \<open>lambda_\<close> on every diagonal
  entry except the bias diagonal entry, which is 0.
\<close>

definition reg_spec :: "real \<Rightarrow> nat \<Rightarrow> mat" where
  "reg_spec lam r = map (\<lambda>i. map (\<lambda>j. if i = j \<and> i \<noteq> r then lam else 0) [0..<r + 1]) [0..<r + 1]"

text \<open>Every column except the last scaled by \<open>1 - noise\<close>.\<close>

definition scale_nonbias_columns :: "real \<Rightarrow> mat \<Rightarrow> mat" where
  "scale_nonbias_columns noise' P =
     map (\<lambda>row. map (\<lambda>j. if j + 1 < length row then (1 - noise') * row ! j else row ! j)
                   [0..<length row]) P"

text \<open>
  The entries that lines 159 to 170 leave in \<open>Q\<close>, for a scatter matrix of shape
  \<open>(r + 1) \<times> (r + 1)\<close>.
\<close>

definition Q_entry :: "real \<Rightarrow> mat \<Rightarrow> nat \<Rightarrow> nat \<Rightarrow> nat \<Rightarrow> real" where
  "Q_entry noise' S r i j =
     (if i = j then (if i = r then S ! i ! i else (1 - noise') * S ! i ! i)
      else if i = r \<or> j = r then S ! i ! j * (1 / (1 - noise'))
      else S ! i ! j * (1 - noise')\<^sup>2)"

definition Q_closed :: "real \<Rightarrow> mat \<Rightarrow> nat \<Rightarrow> mat" where
  "Q_closed noise' S r = map (\<lambda>i. map (\<lambda>j. Q_entry noise' S r i j) [0..<r + 1]) [0..<r + 1]"

text \<open>
  The system that is solved for a fold: \<open>Q + reg\<close> on the left, and on the right the
  transpose of \<open>P\<close> (a copy of the scatter matrix when no \<open>P\<close> was accumulated) with its
  columns but the last scaled.
\<close>

definition regularised_moment :: "layer \<Rightarrow> mat \<Rightarrow> nat \<Rightarrow> mat" where
  "regularised_moment L S r = mat_plus (Q_closed (noise L) S r) (reg_spec (lambda' L) r)"

definition target_system :: "layer \<Rightarrow> mat \<Rightarrow> mat option \<Rightarrow> mat" where
  "target_system L S P =
     mat_T (scale_nonbias_columns (noise L) (case P of None \<Rightarrow> S | Some Pm \<Rightarrow> Pm))"

text \<open>
  The contract of \<open>np.linalg.lstsq\<close>: \<open>X\<close> minimises the squared residual of
  \<open>A X = B\<close>, and has the least squared norm among the minimisers.
\<close>

definition sq_norm :: "mat \<Rightarrow> real" where
  "sq_norm M = (\<Sum>r\<leftarrow>M. \<Sum>x\<leftarrow>r. x\<^sup>2)"

definition residual :: "mat \<Rightarrow> mat \<Rightarrow> mat \<Rightarrow> real" where
  "residual A B X = sq_norm (mat_minus (dot A X) B)"

definition min_norm_lstsq :: "mat \<Rightarrow> mat \<Rightarrow> mat \<Rightarrow> bool" where
  "min_norm_lstsq A B X =
     (is_mat (ncols A) (ncols B) X
      \<and> (\<forall>Y. is_mat (ncols A) (ncols B) Y \<longrightarrow> residual A B X \<le> residual A B Y)
      \<and> (\<forall>Y. is_mat (ncols A) (ncols B) Y \<and> residual A B Y = residual A B X
             \<longrightarrow> sq_norm X \<le> sq_norm Y))"

text \<open>
  Modelled from the spec: \<open>np.linalg.lstsq\<close>, which is not part of the repository, as the
  solver that returns the minimum-norm least-squares solution.
\<close>

definition np_lstsq :: solver where
  "np_lstsq A B = (THE X. min_norm_lstsq A B X)"

text \<open>
  The matrix \<open>Q\<close> in the specification's words: \<open>(1 - noise)\<^sup>2 * scatter\<close> for two different
  non-bias indices, \<open>(1 - noise) * scatter\<close> in the bias row and column and on the non-bias
  diagonal, and \<open>scatter\<close> at the bias diagonal entry.
\<close>

definition Q_spec :: "real \<Rightarrow> mat \<Rightarrow> nat \<Rightarrow> mat" where
  "Q_spec noise' S r =
     map (\<lambda>i. map (\<lambda>j. if i = r \<and> j = r then S ! i ! j
                          else if i = r \<or> j = r \<or> i = j then (1 - noise') * S ! i ! j
                          else (1 - noise')\<^sup>2 * S ! i ! j) [0..<r + 1]) [0..<r + 1]"

text \<open>
  What line 94 stores for fold \<open>k\<close> when the fold is first met: a zero scatter matrix and,
  with target dimensions, a zero \<open>P\<close>.
\<close>

definition stored_zero :: "layer \<Rightarrow> nat \<Rightarrow> mat \<times> mat option" where
  "stored_zero L k =
     (zeros (length (block_indices L k) + 1) (length (block_indices L k) + 1),
      (case prototype_ids L of
         None \<Rightarrow> None
       | Some ids \<Rightarrow> Some (zeros (output_dimensionality L) (length (block_indices L k) + 1))))"

definition stored_state :: "layer \<Rightarrow> (mat \<times> mat option) list" where
  "stored_state L = map (stored_zero L) [0..<num_folds L]"

text \<open>
  A trained layer: one weight matrix for every fold, with one column per dimension of the
  fold and one for the bias, and \<open>m\<close> rows.
\<close>

definition trained :: "layer \<Rightarrow> nat \<Rightarrow> bool" where
  "trained L m =
     (num_folds L \<le> length (blocks L)
      \<and> list_all (\<lambda>k. is_mat m (length (block_indices L k) + 1) (blocks L ! k)) [0..<num_folds L])"

text \<open>The product \<open>weights[k] \<cdot> augmented_input\<close> of fold \<open>k\<close>.\<close>

definition fold_product :: "layer \<Rightarrow> mat \<Rightarrow> nat \<Rightarrow> mat" where
  "fold_product L X k =
     dot (blocks L ! k) (map (\<lambda>i. X ! i) (block_indices L k) @ [replicate (ncols X) 1])"

text \<open>
  The arithmetic mean of the representations of the first \<open>k\<close> folds, each of shape
  \<open>m \<times> n\<close>, and the mean over all folds.
\<close>

definition mean_hidden_upto :: "layer \<Rightarrow> nat \<Rightarrow> nat \<Rightarrow> mat \<Rightarrow> nat \<Rightarrow> mat" where
  "mean_hidden_upto L m n X k =
     mat_scale (1 / real k) (mat_sum m n (map (fold_product L X) [0..<k]))"

definition mean_hidden :: "layer \<Rightarrow> nat \<Rightarrow> nat \<Rightarrow> mat \<Rightarrow> mat" where
  "mean_hidden L m n X = mean_hidden_upto L m n X (num_folds L)"

definition in_open_unit :: "mat \<Rightarrow> bool" where
  "in_open_unit R = list_all (list_all (\<lambda>x. - 1 < x \<and> x < 1)) R"


section \<open>Matrix lemmas\<close>

lemma is_mat_length: "is_mat m n A \<Longrightarrow> length A = m"
  by (simp add: is_mat_def)

lemma is_mat_row: "is_mat m n A \<Longrightarrow> i < m \<Longrightarrow> length (A ! i) = n"
  by (simp add: is_mat_def list_all_length)

lemma is_mat_ncols: "is_mat m n A \<Longrightarrow> 0 < m \<Longrightarrow> ncols A = n"
  by (cases A) (auto simp: is_mat_def ncols_def)

lemma is_matI: "length A = m \<Longrightarrow> (\<And>i. i < m \<Longrightarrow> length (A ! i) = n) \<Longrightarrow> is_mat m n A"
  by (simp add: is_mat_def list_all_length)

lemma is_mat_zeros: "is_mat m n (zeros m n)"
  by (simp add: is_mat_def zeros_def list_all_length)

lemma zeros_nth: "i < m \<Longrightarrow> j < n \<Longrightarrow> zeros m n ! i ! j = 0"
  by (simp add: zeros_def)

lemma mat_eqI:
  assumes "is_mat m n A" "is_mat m n B"
    and "\<And>i j. i < m \<Longrightarrow> j < n \<Longrightarrow> A ! i ! j = B ! i ! j"
  shows "A = B"
proof (rule nth_equalityI)
  show "length A = length B" using assms(1,2) by (simp add: is_mat_def)
next
  fix i assume "i < length A"
  then have i: "i < m" using assms(1) by (simp add: is_mat_def)
  show "A ! i = B ! i"
  proof (rule nth_equalityI)
    show "length (A ! i) = length (B ! i)"
      using is_mat_row[OF assms(1) i] is_mat_row[OF assms(2) i] by simp
  next
    fix j assume "j < length (A ! i)"
    then have "j < n" using is_mat_row[OF assms(1) i] by simp
    then show "A ! i ! j = B ! i ! j" using assms(3) i by simp
  qed
qed

lemma is_mat_mat_plus: "is_mat m n A \<Longrightarrow> is_mat m n B \<Longrightarrow> is_mat m n (mat_plus A B)"
  by (simp add: is_mat_def mat_plus_def list_all_length)

lemma mat_plus_nth:
  "is_mat m n A \<Longrightarrow> is_mat m n B \<Longrightarrow> i < m \<Longrightarrow> j < n \<Longrightarrow>
   mat_plus A B ! i ! j = A ! i ! j + B ! i ! j"
  by (simp add: is_mat_def mat_plus_def list_all_length)

lemma shape_is_mat: "is_mat m n A \<Longrightarrow> 0 < m \<Longrightarrow> shape A = (m, n)"
  by (simp add: shape_def is_mat_ncols is_mat_length)

lemma mat_add_is_mat:
  "is_mat m n A \<Longrightarrow> is_mat m n B \<Longrightarrow> 0 < m \<Longrightarrow> mat_add A B = Inr (mat_plus A B)"
  by (simp add: mat_add_def shape_is_mat)

lemma is_mat_mat_sum: "list_all (is_mat m n) Ms \<Longrightarrow> is_mat m n (mat_sum m n Ms)"
  by (induction Ms) (simp_all add: mat_sum_def is_mat_zeros is_mat_mat_plus)


lemma mat_sum_Nil: "mat_sum m n [] = zeros m n"
  by (simp add: mat_sum_def)

lemma mat_sum_Cons: "mat_sum m n (M # Ms) = mat_plus M (mat_sum m n Ms)"
  by (simp add: mat_sum_def)

lemma mat_sum_nth:
  "list_all (is_mat m n) Ms \<Longrightarrow> i < m \<Longrightarrow> j < n \<Longrightarrow>
   mat_sum m n Ms ! i ! j = (\<Sum>M\<leftarrow>Ms. M ! i ! j)"
proof (induction Ms)
  case Nil
  then show ?case by (simp add: mat_sum_Nil zeros_nth)
next
  case (Cons M Ms)
  have "is_mat m n (mat_sum m n Ms)" using Cons.prems by (simp add: is_mat_mat_sum)
  then show ?case using Cons
    by (simp add: mat_sum_Cons mat_plus_nth[where m=m and n=n])
qed

lemma mat_T_nth: "j < ncols A \<Longrightarrow> i < length A \<Longrightarrow> mat_T A ! j ! i = A ! i ! j"
  by (simp add: mat_T_def)

lemma length_mat_T: "length (mat_T A) = ncols A"
  by (simp add: mat_T_def)

lemma is_mat_mat_T: "is_mat (ncols A) (length A) (mat_T A)"
  by (simp add: is_mat_def mat_T_def list_all_length)

lemma ncols_mat_T: "0 < ncols A \<Longrightarrow> ncols (mat_T A) = length A"
  using is_mat_ncols[OF is_mat_mat_T] by simp

lemma is_mat_dot: "is_mat (length A) (ncols B) (dot A B)"
  by (simp add: is_mat_def dot_def list_all_length)

lemma dot_nth:
  "i < length A \<Longrightarrow> j < ncols B \<Longrightarrow> dot A B ! i ! j = (\<Sum>k\<leftarrow>[0..<length B]. A ! i ! k * B ! k ! j)"
  by (simp add: dot_def)

lemma gram_nth:
  assumes "i < length X" "j < length X" "0 < ncols X"
  shows "dot X (mat_T X) ! i ! j = (\<Sum>k\<leftarrow>[0..<ncols X]. X ! i ! k * X ! j ! k)"
proof -
  have "dot X (mat_T X) ! i ! j = (\<Sum>k\<leftarrow>[0..<length (mat_T X)]. X ! i ! k * mat_T X ! k ! j)"
    using assms by (simp add: dot_nth ncols_mat_T)
  also have "\<dots> = (\<Sum>k\<leftarrow>[0..<ncols X]. X ! i ! k * X ! j ! k)"
    using assms by (auto simp: length_mat_T mat_T_nth intro!: arg_cong[where f=sum_list] map_cong)
  finally show ?thesis .
qed

section \<open>The matrix Q and the solved system\<close>

lemma is_mat_set_entry: "is_mat m n A \<Longrightarrow> is_mat m n (set_entry A i j v)"
  by (cases "i < length A") (auto simp: is_mat_def set_entry_def list_all_length nth_list_update)

lemma set_entry_nth:
  "is_mat m n A \<Longrightarrow> a < m \<Longrightarrow> b < n \<Longrightarrow> i < m \<Longrightarrow> j < n \<Longrightarrow>
   set_entry A i j v ! a ! b = (if a = i \<and> b = j then v else A ! a ! b)"
  by (auto simp: is_mat_def set_entry_def list_all_length nth_list_update)

lemma fold_set_entry_diag:
  assumes "is_mat m n Q" "k \<le> m" "k \<le> n"
  shows "is_mat m n (fold (\<lambda>i Q. set_entry Q i i (f i)) [0..<k] Q)
       \<and> (\<forall>a<m. \<forall>b<n. fold (\<lambda>i Q. set_entry Q i i (f i)) [0..<k] Q ! a ! b
                          = (if a = b \<and> a < k then f a else Q ! a ! b))"
  using assms(2,3)
proof (induction k)
  case 0
  then show ?case using assms(1) by simp
next
  case (Suc k)
  let ?F = "fold (\<lambda>i Q. set_entry Q i i (f i)) [0..<k] Q"
  have IH: "is_mat m n ?F"
    "\<And>a b. a < m \<Longrightarrow> b < n \<Longrightarrow> ?F ! a ! b = (if a = b \<and> a < k then f a else Q ! a ! b)"
    using Suc by auto
  have step: "fold (\<lambda>i Q. set_entry Q i i (f i)) [0..<Suc k] Q = set_entry ?F k k (f k)"
    by simp
  show ?case
    unfolding step
    using Suc.prems IH(2) by (auto simp: is_mat_set_entry[OF IH(1)] set_entry_nth[OF IH(1)])
qed

lemma computeQ_closed:
  assumes S: "is_mat (Suc r) (Suc r) S" and n1: "noise' \<noteq> 1"
  shows "computeQ noise' S = Inr (Q_closed noise' S r)"
proof -
  let ?c = "1 - noise'"
  have len: "length S = Suc r" and nc: "ncols S = Suc r"
    using S is_mat_ncols[OF S] by (simp_all add: is_mat_def)
  have row: "\<And>i. i < Suc r \<Longrightarrow> length (S ! i) = Suc r"
    using is_mat_row[OF S] by simp
  define corruption where "corruption = (replicate (r + 1) (1 * ?c))[r := 1]"
  define Q0 where "Q0 = map (map (\<lambda>x. x * ?c\<^sup>2)) S"
  define Q1 where "Q1 = Q0[r := map (\<lambda>x. x * (1 / ?c)) (S ! r)]"
  define Q2 where "Q2 = map2 (\<lambda>q s. q[r := s ! r * (1 / ?c)]) Q1 S"
  define Q3 where "Q3 = set_entry Q2 r r (S ! r ! r * (1 / ?c\<^sup>2))"
  define Q4 where "Q4 = fold (\<lambda>i Q. set_entry Q i i (corruption ! i * S ! i ! i)) [0..<r + 1] Q3"
  have cq: "computeQ noise' S = Inr Q4"
    using n1 by (simp add: computeQ_def Let_def len nc Q4_def Q3_def Q2_def Q1_def Q0_def corruption_def)
  have corr: "\<And>i. i < Suc r \<Longrightarrow> corruption ! i = (if i = r then 1 else ?c)"
    by (simp add: corruption_def nth_list_update del: replicate_Suc)
  have m0: "is_mat (Suc r) (Suc r) Q0"
    using S by (simp add: Q0_def is_mat_def list_all_length)
  have e0: "\<And>i j. i < Suc r \<Longrightarrow> j < Suc r \<Longrightarrow> Q0 ! i ! j = S ! i ! j * ?c\<^sup>2"
    using len row by (simp add: Q0_def)
  have m1: "is_mat (Suc r) (Suc r) Q1"
    using m0 row by (auto simp: Q1_def is_mat_def list_all_length nth_list_update)
  have e1: "\<And>i j. i < Suc r \<Longrightarrow> j < Suc r \<Longrightarrow>
      Q1 ! i ! j = (if i = r then S ! r ! j * (1 / ?c) else S ! i ! j * ?c\<^sup>2)"
    using m0 row e0 by (auto simp: Q1_def is_mat_def nth_list_update)
  have m2: "is_mat (Suc r) (Suc r) Q2"
    using m1 len by (auto simp: Q2_def is_mat_def list_all_length)
  have e2: "\<And>i j. i < Suc r \<Longrightarrow> j < Suc r \<Longrightarrow>
      Q2 ! i ! j = (if j = r then S ! i ! r * (1 / ?c) else Q1 ! i ! j)"
    using m1 len by (auto simp: Q2_def is_mat_def list_all_length nth_list_update)
  have m3: "is_mat (Suc r) (Suc r) Q3"
    unfolding Q3_def by (rule is_mat_set_entry[OF m2])
  have e3: "\<And>i j. i < Suc r \<Longrightarrow> j < Suc r \<Longrightarrow>
      Q3 ! i ! j = (if i = r \<and> j = r then S ! r ! r * (1 / ?c\<^sup>2) else Q2 ! i ! j)"
    unfolding Q3_def using set_entry_nth[OF m2] by simp
  have f4: "is_mat (Suc r) (Suc r) Q4
     \<and> (\<forall>a<Suc r. \<forall>b<Suc r. Q4 ! a ! b = (if a = b \<and> a < r + 1 then corruption ! a * S ! a ! a else Q3 ! a ! b))"
    unfolding Q4_def by (rule fold_set_entry_diag[OF m3]) simp_all
  have qc: "Q_closed noise' S r = map (\<lambda>i. map (\<lambda>j. Q_entry noise' S r i j) [0..<Suc r]) [0..<Suc r]"
    by (simp add: Q_closed_def)
  have "Q4 = map (\<lambda>i. map (\<lambda>j. Q_entry noise' S r i j) [0..<Suc r]) [0..<Suc r]"
  proof (rule mat_eqI[where m="Suc r" and n="Suc r"])
    show "is_mat (Suc r) (Suc r) Q4" using f4 by simp
    show "is_mat (Suc r) (Suc r) (map (\<lambda>i. map (\<lambda>j. Q_entry noise' S r i j) [0..<Suc r]) [0..<Suc r])"
      by (simp add: is_mat_def list_all_length del: upt_Suc)
  next
    fix i j assume ij: "i < Suc r" "j < Suc r"
    have "Q4 ! i ! j = (if i = j then corruption ! i * S ! i ! i else Q3 ! i ! j)"
      using f4 ij by simp
    also have "\<dots> = Q_entry noise' S r i j"
      using ij by (auto simp: Q_entry_def corr e3 e2 e1)
    finally show "Q4 ! i ! j = map (\<lambda>i. map (\<lambda>j. Q_entry noise' S r i j) [0..<Suc r]) [0..<Suc r] ! i ! j"
      using ij by (simp del: upt_Suc)
  qed
  then show ?thesis using cq qc by simp
qed



lemma is_mat_Q_closed: "is_mat (Suc r) (Suc r) (Q_closed noise' S r)"
  by (simp add: Q_closed_def is_mat_def list_all_length del: upt_Suc)

lemma Q_closed_nth: "i < Suc r \<Longrightarrow> j < Suc r \<Longrightarrow> Q_closed noise' S r ! i ! j = Q_entry noise' S r i j"
  by (simp add: Q_closed_def del: upt_Suc)

lemma is_mat_reg_spec: "is_mat (Suc r) (Suc r) (reg_spec lam r)"
  by (simp add: reg_spec_def is_mat_def list_all_length del: upt_Suc)

lemma reg_spec_nth:
  "i < Suc r \<Longrightarrow> j < Suc r \<Longrightarrow> reg_spec lam r ! i ! j = (if i = j \<and> i \<noteq> r then lam else 0)"
  by (simp add: reg_spec_def del: upt_Suc)

lemma reg_matrix_eq: "reg_matrix lam r = reg_spec lam r"
proof -
  let ?E = "map (\<lambda>i. map (\<lambda>j. (if i = j then 1 else 0) * lam) [0..<r + 1]) [0..<r + 1]"
  have mE: "is_mat (Suc r) (Suc r) ?E"
    by (simp add: is_mat_def list_all_length del: upt_Suc)
  show ?thesis
  proof (rule mat_eqI[where m="Suc r" and n="Suc r"])
    show "is_mat (Suc r) (Suc r) (reg_matrix lam r)"
      unfolding reg_matrix_def by (rule is_mat_set_entry[OF mE])
    show "is_mat (Suc r) (Suc r) (reg_spec lam r)" by (rule is_mat_reg_spec)
  next
    fix i j assume ij: "i < Suc r" "j < Suc r"
    have "reg_matrix lam r ! i ! j = (if i = r \<and> j = r then 0 else ?E ! i ! j)"
      unfolding reg_matrix_def using set_entry_nth[OF mE ij, of r r 0] by simp
    also have "\<dots> = reg_spec lam r ! i ! j"
      using ij by (auto simp: reg_spec_nth simp del: upt_Suc)
    finally show "reg_matrix lam r ! i ! j = reg_spec lam r ! i ! j" .
  qed
qed

lemma apply_noise_eq: "apply_noise noise' P = scale_nonbias_columns noise' P"
proof -
  have "map (\<lambda>x. x * (1 - noise')) (butlast row) @ (if row = [] then [] else [last row])
      = map (\<lambda>j. if j + 1 < length row then (1 - noise') * row ! j else row ! j) [0..<length row]"
    for row :: "real list"
  proof (rule nth_equalityI)
    show "length (map (\<lambda>x. x * (1 - noise')) (butlast row) @ (if row = [] then [] else [last row]))
        = length (map (\<lambda>j. if j + 1 < length row then (1 - noise') * row ! j else row ! j) [0..<length row])"
      by (cases row rule: rev_cases) simp_all
  next
    fix i assume "i < length (map (\<lambda>x. x * (1 - noise')) (butlast row) @ (if row = [] then [] else [last row]))"
    then show "(map (\<lambda>x. x * (1 - noise')) (butlast row) @ (if row = [] then [] else [last row])) ! i
        = map (\<lambda>j. if j + 1 < length row then (1 - noise') * row ! j else row ! j) [0..<length row] ! i"
      by (cases row rule: rev_cases) (auto simp: nth_append less_Suc_eq simp del: upt_Suc)
  qed
  then show ?thesis by (simp add: apply_noise_def scale_nonbias_columns_def)
qed


lemma computeWeights_closed:
  assumes S: "is_mat (Suc r) (Suc r) S" and n1: "noise L \<noteq> 1"
  shows "computeWeights lstsq L S P = Inr (mat_T (lstsq (regularised_moment L S r) (mat_T P)))"
proof -
  have len: "length S - Suc 0 = r" using S by (simp add: is_mat_def)
  have "mat_add (Q_closed (noise L) S r) (reg_spec (lambda' L) r)
      = Inr (mat_plus (Q_closed (noise L) S r) (reg_spec (lambda' L) r))"
    by (rule mat_add_is_mat[OF is_mat_Q_closed is_mat_reg_spec]) simp
  then show ?thesis
    by (simp add: computeWeights_def len computeQ_closed[OF S n1] reg_matrix_eq regularised_moment_def)
qed

lemma fold_weights_closed:
  assumes S: "is_mat (Suc r) (Suc r) S" and n1: "noise L \<noteq> 1"
  shows "fold_weights lstsq L (S, P)
       = Inr (mat_T (lstsq (regularised_moment L S r) (target_system L S P)))"
  by (simp add: fold_weights_def computeWeights_closed[OF S n1] apply_noise_eq target_system_def)




section \<open>The bias cross-terms of Q\<close>

text \<open>
  C1. The claim gives the bias cross-terms of \<open>Q\<close> as \<open>(1 - noise) * scatter[r,i]\<close>: the
  corrupted values \<open>(1 - noise)\<^sup>2 * scatter[r,i]\<close> scaled back by \<open>1 / (1 - noise)\<close>. Lines
  161 and 163 multiply the entries of \<open>scatter\<close>, not those of the corrupted \<open>Q\<close>, by
  \<open>1 / (1 - noise)\<close>. Called with the scatter matrix \<open>[[10, 4], [4, 2]]\<close> (bias index 1) and
  \<open>noise = 1/2\<close>, the code leaves the cross-terms \<open>4 / (1/2) = 8\<close> in \<open>Q\<close>, where the claim
  gives \<open>(1/2) * 4 = 2\<close>. The diagonal entries \<open>(1/2) * 10 = 5\<close> and \<open>2\<close> are as the claim
  states.
\<close>

theorem computeQ_bias_cross_terms:
  "computeQ (1/2) [[10, 4], [4, 2]] = Inr [[5, 8], [8, 2]]
   \<and> Q_spec (1/2) [[10, 4], [4, 2]] 1 = [[5, 2], [2, 2]]"
  by code_simp


section \<open>Folds\<close>

lemma concat_slices:
  "concat (map (\<lambda>k. take m (drop (k * m) xs)) [0..<K]) = take (K * m) xs"
proof (induction K)
  case 0
  then show ?case by simp
next
  case (Suc K)
  have "take (K * m) xs @ take m (drop (K * m) xs) = take (K * m + m) xs"
    by (simp add: take_add)
  then show ?case using Suc by (simp add: add.commute)
qed

lemma ceiling_div_nonneg: "0 \<le> \<lceil>real n / real m\<rceil>"
proof -
  have "(0::real) \<le> real n / real m" by simp
  then have "\<lceil>0::real\<rceil> \<le> \<lceil>real n / real m\<rceil>" by (rule ceiling_mono)
  then show ?thesis by simp
qed

lemma ceiling_folds_cover:
  assumes "0 < m"
  shows "n \<le> nat \<lceil>real n / real m\<rceil> * m"
proof -
  define K where "K = nat \<lceil>real n / real m\<rceil>"
  have "real_of_int \<lceil>real n / real m\<rceil> = real K"
    using ceiling_div_nonneg[of n m] by (simp add: K_def)
  then have "real n / real m \<le> real K"
    using le_of_int_ceiling[of "real n / real m"] by simp
  moreover have "0 < real m" using assms by simp
  ultimately have "real n \<le> real K * real m"
    by (simp only: pos_divide_le_eq)
  then have "real n \<le> real (K * m)" by simp
  then have "n \<le> K * m" by (simp only: of_nat_le_iff)
  then show ?thesis by (simp add: K_def)
qed

lemma ceiling_folds_nonempty:
  assumes "0 < m" and "k < nat \<lceil>real n / real m\<rceil>"
  shows "k * m < n"
proof -
  have "int k < \<lceil>real n / real m\<rceil>" using assms(2) by simp
  then have "real_of_int (int k) < real n / real m" by (simp only: less_ceiling_iff)
  then have "real k < real n / real m" by simp
  moreover have "0 < real m" using assms(1) by simp
  ultimately have "real k * real m < real n"
    by (simp only: pos_less_divide_eq)
  then have "real (k * m) < real n" by simp
  then show ?thesis by (simp only: of_nat_less_iff)
qed

lemma ceiling_folds_full:
  assumes "0 < m" and "k + 1 < nat \<lceil>real n / real m\<rceil>"
  shows "k * m + m \<le> n"
  using ceiling_folds_nonempty[OF assms] by (simp add: less_imp_le)

lemma slice_subset_take: "set (take m (drop a xs)) \<subseteq> set (take (a + m) xs)"
  by (simp add: take_drop add.commute set_drop_subset)

lemma slices_disjoint:
  assumes "distinct xs" and "k < j"
  shows "set (take m (drop (k * m) xs)) \<inter> set (take m (drop (j * m) xs)) = {}"
proof -
  have "k * m + m \<le> j * m"
  proof -
    have "Suc k \<le> j" using assms(2) by simp
    then have "Suc k * m \<le> j * m" by (rule mult_le_mono1)
    then show ?thesis by (simp add: add.commute)
  qed
  then have "set (take (k * m + m) xs) \<subseteq> set (take (j * m) xs)"
    by (rule set_take_subset_set_take)
  then have a: "set (take m (drop (k * m) xs)) \<subseteq> set (take (j * m) xs)"
    using slice_subset_take[of m "k * m" xs] by blast
  have b: "set (take m (drop (j * m) xs)) \<subseteq> set (drop (j * m) xs)"
    by (rule set_take_subset)
  have "set (take (j * m) xs) \<inter> set (drop (j * m) xs) = {}"
    by (rule set_take_disj_set_drop_if_distinct[OF assms(1)]) simp
  then show ?thesis using a b by blast
qed

lemma is_permutation_set: "is_permutation n xs \<Longrightarrow> set xs = {0..<n}"
proof -
  assume p: "is_permutation n xs"
  then have sub: "set xs \<subseteq> {0..<n}" by (auto simp: is_permutation_def list_all_iff)
  have "card (set xs) = n" using p by (simp add: is_permutation_def distinct_card)
  then show "set xs = {0..<n}" using sub by (simp add: card_subset_eq)
qed

lemma is_permutation_upt: "is_permutation n [0..<n]"
  by (simp add: is_permutation_def list_all_iff)

lemma init_fields:
  assumes "mDALayer_init perm noise' lam n output_dim proto = Inr L"
  shows "noise L = noise'" "lambda' L = lam" "input_dimensionality L = n"
    "0 < output_dimensionality L"
    "output_dimensionality L = (if output_dim = None \<or> output_dim = Some n then n else the output_dim)"
    "randomized_indices L = (if output_dim = None \<or> output_dim = Some n then [0..<n] else perm)"
    "prototype_ids L = proto"
    "num_folds L = nat \<lceil>real n / real (output_dimensionality L)\<rceil>"
    "blocks L = []"
  using assms by (auto simp: mDALayer_init_def Let_def split: if_splits)

lemma folds_concat:
  assumes "0 < output_dimensionality L"
    and "num_folds L = nat \<lceil>real (length (randomized_indices L)) / real (output_dimensionality L)\<rceil>"
  shows "concat (map (block_indices L) [0..<num_folds L]) = randomized_indices L"
proof -
  let ?m = "output_dimensionality L" and ?xs = "randomized_indices L"
  have "concat (map (block_indices L) [0..<num_folds L]) = take (num_folds L * ?m) ?xs"
    using concat_slices[of ?m ?xs "num_folds L"] by (simp add: block_indices_def[abs_def])
  also have "\<dots> = ?xs"
    using ceiling_folds_cover[OF assms(1), of "length ?xs"] assms(2) by simp
  finally show ?thesis .
qed

lemma fold_nonempty:
  assumes "0 < output_dimensionality L"
    and "num_folds L = nat \<lceil>real (length (randomized_indices L)) / real (output_dimensionality L)\<rceil>"
    and "k < num_folds L"
  shows "block_indices L k \<noteq> []"
  using ceiling_folds_nonempty[OF assms(1), of k "length (randomized_indices L)"] assms
  by (simp add: block_indices_def)

text \<open>
  C5. For a layer that the constructor returns, where the drawn permutation is a
  permutation of the input dimensions: \<open>num_folds\<close> is the ceiling of
  \<open>input_dimensionality / output_dimensionality\<close>; the folds, in order, make up the
  dimension permutation, so every input dimension lies in exactly one fold; each fold
  has at most \<open>output_dimensionality\<close> indices, exactly that many except for the last, and
  none is empty; two different folds are disjoint; and without a reduction there is one
  fold and the permutation is the identity ordering.
\<close>

theorem folds_partition_input_dimensions:
  assumes "mDALayer_init perm noise' lam n output_dim proto = Inr L"
    and "is_permutation n perm"
  shows "int (num_folds L) = \<lceil>real (input_dimensionality L) / real (output_dimensionality L)\<rceil>
       \<and> concat (map (block_indices L) [0..<num_folds L]) = randomized_indices L
       \<and> is_permutation (input_dimensionality L) (concat (map (block_indices L) [0..<num_folds L]))
       \<and> (\<forall>k<num_folds L. block_indices L k \<noteq> []
             \<and> length (block_indices L k) \<le> output_dimensionality L
             \<and> (k + 1 < num_folds L \<longrightarrow> length (block_indices L k) = output_dimensionality L))
       \<and> (\<forall>j<num_folds L. \<forall>k<j. set (block_indices L k) \<inter> set (block_indices L j) = {})
       \<and> (\<Union>k<num_folds L. set (block_indices L k)) = {0..<input_dimensionality L}
       \<and> (output_dim = None \<or> output_dim = Some n
            \<longrightarrow> num_folds L = 1 \<and> randomized_indices L = [0..<input_dimensionality L])"
proof -
  note f = init_fields[OF assms(1)]
  let ?m = "output_dimensionality L" and ?xs = "randomized_indices L"
  have perm: "is_permutation n ?xs"
    using assms(2) by (simp add: f(6) is_permutation_upt)
  then have len: "length ?xs = n" and dist: "distinct ?xs"
    by (simp_all add: is_permutation_def)
  have nf: "num_folds L = nat \<lceil>real (length ?xs) / real ?m\<rceil>"
    by (simp add: f(8) len)
  have c1: "int (num_folds L) = \<lceil>real (input_dimensionality L) / real ?m\<rceil>"
    using ceiling_div_nonneg[of n "?m"] by (simp add: f(3) f(8))
  have c2: "concat (map (block_indices L) [0..<num_folds L]) = ?xs"
    by (rule folds_concat[OF f(4) nf])
  have c3: "is_permutation (input_dimensionality L) (concat (map (block_indices L) [0..<num_folds L]))"
    using perm by (simp add: c2 f(3))
  have c4: "block_indices L k \<noteq> [] \<and> length (block_indices L k) \<le> ?m
       \<and> (k + 1 < num_folds L \<longrightarrow> length (block_indices L k) = ?m)" if "k < num_folds L" for k
  proof -
    have "k + 1 < num_folds L \<Longrightarrow> k * ?m + ?m \<le> length ?xs"
      using ceiling_folds_full[OF f(4), of k "length ?xs"] nf by simp
    then show ?thesis
      using fold_nonempty[OF f(4) nf that] by (auto simp: block_indices_def)
  qed
  have c5: "set (block_indices L k) \<inter> set (block_indices L j) = {}" if "k < j" for k j
    unfolding block_indices_def by (rule slices_disjoint[OF dist that])
  have "(\<Union>k<num_folds L. set (block_indices L k)) = set (concat (map (block_indices L) [0..<num_folds L]))"
    by (auto simp: set_concat)
  then have c6: "(\<Union>k<num_folds L. set (block_indices L k)) = {0..<input_dimensionality L}"
    using is_permutation_set[OF perm] by (simp add: c2 f(3))
  have c7: "num_folds L = 1 \<and> ?xs = [0..<input_dimensionality L]"
    if "output_dim = None \<or> output_dim = Some n"
  proof -
    have m: "?m = n" using that f(5) by auto
    then have "0 < n" using f(4) by simp
    then show ?thesis using that by (auto simp: f(8) f(6) f(3) m)
  qed
  show ?thesis using c1 c2 c3 c4 c5 c6 c7 by blast
qed

theorem folds_partition_input_dimensions_witness:
  "is_permutation 5 [3, 1, 4, 0, 2]
   \<and> (\<exists>L. mDALayer_init [3, 1, 4, 0, 2] (1/2) 0 5 (Some 2) (Some [0, 1]) = Inr L
         \<and> num_folds L = 3
         \<and> map (block_indices L) [0..<num_folds L] = [[3, 1], [4, 0], [2]]
         \<and> concat (map (block_indices L) [0..<num_folds L]) = randomized_indices L
         \<and> (\<Union>k<num_folds L. set (block_indices L k)) = {0..<5})"
proof -
  let ?L = "\<lparr>noise = 1/2, lambda' = 0, input_dimensionality = 5, output_dimensionality = 2,
      randomized_indices = [3, 1, 4, 0, 2], prototype_ids = Some [0, 1], num_folds = 3,
      blocks = []\<rparr>"
  have p: "is_permutation 5 [3, 1, 4, 0, 2]" by (simp add: is_permutation_def)
  have c: "\<lceil>5 / 2 :: real\<rceil> = 3" by (simp add: ceiling_eq_iff)
  have i: "mDALayer_init [3, 1, 4, 0, 2] (1/2) 0 5 (Some 2) (Some [0, 1]) = Inr ?L"
    by (simp add: mDALayer_init_def c)
  have b: "map (block_indices ?L) [0..<num_folds ?L] = [[3, 1], [4, 0], [2]]"
    by (simp add: block_indices_def upt_rec)
  show ?thesis
    using folds_partition_input_dimensions[OF i p] p i b by simp
qed

section \<open>The configuration check\<close>

text \<open>
  C3. A layer constructed with an output dimensionality below the input dimensionality
  and without target-dimension indices: \<open>train\<close> returns the assertion's error whatever
  the corpus and the chunk size are, and no trained layer results. The error comes
  before anything is pulled from the iterator over the corpus: it is returned whatever
  the iterator would yield, also when pulling its first chunk would raise.
\<close>

theorem train_reduction_without_targets_fails:
  assumes "mDALayer_init perm noise' lam n (Some m) None = Inr L" and "m < n"
  shows "train lstsq L corpus chunksize = Inl AssertionError
       \<and> train_over lstsq L dualIterator = Inl AssertionError"
  using assms by (auto simp: train_def train_over_def mDALayer_init_def Let_def split: if_splits)

theorem train_reduction_without_targets_fails_witness:
  "(3::nat) < 10
   \<and> (\<exists>L. mDALayer_init [9, 8, 7, 6, 5, 4, 3, 2, 1, 0] (1/2) 0 10 (Some 3) None = Inr L
         \<and> train (\<lambda>A B. B) L [\<lambda>i. 1] 7 = Inl AssertionError
         \<and> train_over (\<lambda>A B. B) L [Inl IndexError] = Inl AssertionError)"
proof -
  let ?L = "\<lparr>noise = 1/2, lambda' = 0, input_dimensionality = 10, output_dimensionality = 3,
      randomized_indices = [9, 8, 7, 6, 5, 4, 3, 2, 1, 0], prototype_ids = None, num_folds = 4,
      blocks = []\<rparr>"
  have c: "\<lceil>10 / 3 :: real\<rceil> = 4" by (simp add: ceiling_eq_iff)
  have i: "mDALayer_init [9, 8, 7, 6, 5, 4, 3, 2, 1, 0] (1/2) 0 10 (Some 3) None = Inr ?L"
    by (simp add: mDALayer_init_def c)
  have h: "(3::nat) < 10" by simp
  show ?thesis
    using train_reduction_without_targets_fails[OF i h, of "\<lambda>A B. B" "[\<lambda>i. 1]" 7 "[Inl IndexError]"] i
    by simp
qed


section \<open>Sums of outer products\<close>

lemma is_mat_outer: "is_mat (length u) (length v) (outer u v)"
  by (simp add: outer_def is_mat_def list_all_length)

lemma outer_nth: "i < length u \<Longrightarrow> j < length v \<Longrightarrow> outer u v ! i ! j = u ! i * v ! j"
  by (simp add: outer_def)

lemma mat_plus_zeros_left: "is_mat m n A \<Longrightarrow> mat_plus (zeros m n) A = A"
  by (rule mat_eqI[where m=m and n=n])
     (simp_all add: is_mat_mat_plus is_mat_zeros mat_plus_nth[where m=m and n=n] zeros_nth)

lemma mat_sum_append:
  assumes "list_all (is_mat m n) Ms" "list_all (is_mat m n) Ns"
  shows "mat_sum m n (Ms @ Ns) = mat_plus (mat_sum m n Ms) (mat_sum m n Ns)"
proof (rule mat_eqI[where m=m and n=n])
  show "is_mat m n (mat_sum m n (Ms @ Ns))"
    using assms by (simp add: is_mat_mat_sum)
  show "is_mat m n (mat_plus (mat_sum m n Ms) (mat_sum m n Ns))"
    using assms by (simp add: is_mat_mat_sum is_mat_mat_plus)
next
  fix i j assume ij: "i < m" "j < n"
  have "list_all (is_mat m n) (Ms @ Ns)" using assms by simp
  then have "mat_sum m n (Ms @ Ns) ! i ! j = (\<Sum>M\<leftarrow>Ms @ Ns. M ! i ! j)"
    using ij by (rule mat_sum_nth)
  also have "\<dots> = mat_sum m n Ms ! i ! j + mat_sum m n Ns ! i ! j"
    using assms ij by (simp add: mat_sum_nth)
  also have "\<dots> = mat_plus (mat_sum m n Ms) (mat_sum m n Ns) ! i ! j"
    using assms ij by (simp add: mat_plus_nth[where m=m and n=n] is_mat_mat_sum)
  finally show "mat_sum m n (Ms @ Ns) ! i ! j = mat_plus (mat_sum m n Ms) (mat_sum m n Ns) ! i ! j" .
qed

lemma sum_list_upt_nth: "(\<Sum>k\<leftarrow>[0..<length xs]. f (xs ! k)) = (\<Sum>x\<leftarrow>xs. f x)"
proof -
  have "map (\<lambda>k. f (xs ! k)) [0..<length xs] = map f xs"
    by (rule nth_equalityI) simp_all
  then show ?thesis by simp
qed

text \<open>
  The product of a matrix whose columns are the vectors \<open>f d\<close> with the transpose of one
  whose columns are the vectors \<open>g d\<close> is the sum of the outer products.
\<close>

lemma dot_columns_is_sum_outer:
  assumes ds: "ds \<noteq> []" and n: "0 < n"
    and f: "\<And>d. length (f d) = p" and g: "\<And>d. length (g d) = n"
  shows "dot (map (\<lambda>a. map (\<lambda>d. f d ! a) ds) [0..<p]) (mat_T (map (\<lambda>b. map (\<lambda>d. g d ! b) ds) [0..<n]))
       = mat_sum p n (map (\<lambda>d. outer (f d) (g d)) ds)"
proof -
  let ?A = "map (\<lambda>a. map (\<lambda>d. f d ! a) ds) [0..<p]"
  let ?B = "map (\<lambda>b. map (\<lambda>d. g d ! b) ds) [0..<n]"
  have mB: "is_mat n (length ds) ?B" by (simp add: is_mat_def list_all_length)
  have ncB: "ncols ?B = length ds" by (rule is_mat_ncols[OF mB n])
  have N: "0 < ncols ?B" using ds by (simp add: ncB)
  have lT: "length (mat_T ?B) = length ds" by (simp add: length_mat_T ncB)
  have ncT: "ncols (mat_T ?B) = n" using ncols_mat_T[OF N] by simp
  have all: "list_all (is_mat p n) (map (\<lambda>d. outer (f d) (g d)) ds)"
    using is_mat_outer[of "f d" "g d" for d] by (simp add: list_all_iff f g)
  show ?thesis
  proof (rule mat_eqI[where m=p and n=n])
    show "is_mat p n (dot ?A (mat_T ?B))"
      using is_mat_dot[of ?A "mat_T ?B"] by (simp add: ncT)
    show "is_mat p n (mat_sum p n (map (\<lambda>d. outer (f d) (g d)) ds))"
      by (rule is_mat_mat_sum[OF all])
  next
    fix i j assume ij: "i < p" "j < n"
    have "dot ?A (mat_T ?B) ! i ! j = (\<Sum>k\<leftarrow>[0..<length ds]. ?A ! i ! k * mat_T ?B ! k ! j)"
      using ij by (simp add: dot_nth ncT lT)
    also have "\<dots> = (\<Sum>k\<leftarrow>[0..<length ds]. f (ds ! k) ! i * g (ds ! k) ! j)"
    proof -
      have "?A ! i ! k * mat_T ?B ! k ! j = f (ds ! k) ! i * g (ds ! k) ! j"
        if "k < length ds" for k
        using that ij by (simp add: mat_T_nth ncB)
      then have "map (\<lambda>k. ?A ! i ! k * mat_T ?B ! k ! j) [0..<length ds]
          = map (\<lambda>k. f (ds ! k) ! i * g (ds ! k) ! j) [0..<length ds]"
        by simp
      then show ?thesis by (simp only:)
    qed
    also have "\<dots> = (\<Sum>d\<leftarrow>ds. f d ! i * g d ! j)"
      by (rule sum_list_upt_nth)
    also have "\<dots> = (\<Sum>M\<leftarrow>map (\<lambda>d. outer (f d) (g d)) ds. M ! i ! j)"
      using ij by (simp add: outer_nth f g comp_def)
    also have "\<dots> = mat_sum p n (map (\<lambda>d. outer (f d) (g d)) ds) ! i ! j"
      using mat_sum_nth[OF all ij] by simp
    finally show "dot ?A (mat_T ?B) ! i ! j = mat_sum p n (map (\<lambda>d. outer (f d) (g d)) ds) ! i ! j" .
  qed
qed

section \<open>The accumulation pass\<close>

lemma select_rows_corpus2csc:
  assumes "list_all (\<lambda>i. i < n) idxs"
  shows "select_rows (corpus2csc chunk n) idxs = Inr (map (\<lambda>i. map (\<lambda>d. d i) chunk) idxs)"
proof -
  have "map ((!) (corpus2csc chunk n)) idxs = map (\<lambda>i. map (\<lambda>d. d i) chunk) idxs"
    using assms by (auto simp: corpus2csc_def list_all_iff)
  then show ?thesis using assms by (simp add: select_rows_def corpus2csc_def)
qed

lemma ncols_rows_of_chunk:
  "idxs \<noteq> [] \<Longrightarrow> ncols (map (\<lambda>i. map (\<lambda>d. d i) chunk) idxs) = length chunk"
  by (cases idxs) (simp_all add: ncols_def)

lemma rows_as_columns:
  "map (\<lambda>i. map (\<lambda>d. d i) chunk) idxs = map (\<lambda>a. map (\<lambda>d. map d idxs ! a) chunk) [0..<length idxs]"
  by (rule nth_equalityI) simp_all

lemma input_chunk_as_columns:
  "map (\<lambda>i. map (\<lambda>d. d i) chunk) idxs @ [replicate (length chunk) 1]
   = map (\<lambda>a. map (\<lambda>d. (map d idxs @ [1]) ! a) chunk) [0..<length idxs + 1]"
proof (rule nth_equalityI)
  show "length (map (\<lambda>i. map (\<lambda>d. d i) chunk) idxs @ [replicate (length chunk) 1])
      = length (map (\<lambda>a. map (\<lambda>d. (map d idxs @ [1]) ! a) chunk) [0..<length idxs + 1])"
    by simp
next
  fix a assume "a < length (map (\<lambda>i. map (\<lambda>d. d i) chunk) idxs @ [replicate (length chunk) 1])"
  then have a: "a < length idxs + 1" by simp
  show "(map (\<lambda>i. map (\<lambda>d. d i) chunk) idxs @ [replicate (length chunk) 1]) ! a
      = map (\<lambda>a. map (\<lambda>d. (map d idxs @ [1]) ! a) chunk) [0..<length idxs + 1] ! a"
  proof (cases "a < length idxs")
    case True
    then show ?thesis by (simp add: nth_append del: upt_Suc)
  next
    case False
    then have "a = length idxs" using a by simp
    then show ?thesis by (simp add: nth_append map_replicate_const del: upt_Suc)
  qed
qed

text \<open>
  The products that update \<open>scatter\<close> and \<open>P\<close> for one chunk are the sums, over the
  documents of the chunk, of the outer products.
\<close>

lemma gram_of_chunk:
  assumes "chunk \<noteq> []"
  shows "dot (map (\<lambda>i. map (\<lambda>d. d i) chunk) (block_indices L k) @ [replicate (length chunk) 1])
             (mat_T (map (\<lambda>i. map (\<lambda>d. d i) chunk) (block_indices L k) @ [replicate (length chunk) 1]))
       = exact_scatter L k chunk"
  unfolding input_chunk_as_columns exact_scatter_def aug_doc_def
  by (rule dot_columns_is_sum_outer[OF assms]) simp_all

lemma cross_of_chunk:
  assumes "chunk \<noteq> []"
  shows "dot (map (\<lambda>i. map (\<lambda>d. d i) chunk) ids)
             (mat_T (map (\<lambda>i. map (\<lambda>d. d i) chunk) (block_indices L k) @ [replicate (length chunk) 1]))
       = mat_sum (length ids) (length (block_indices L k) + 1)
           (map (\<lambda>d. outer (map d ids) (aug_doc L k d)) chunk)"
  unfolding input_chunk_as_columns aug_doc_def rows_as_columns[of chunk ids]
  by (rule dot_columns_is_sum_outer[OF assms]) simp_all

lemma all_is_mat_outer_aug:
  "list_all (is_mat (length (block_indices L k) + 1) (length (block_indices L k) + 1))
     (map (\<lambda>d. outer (aug_doc L k d) (aug_doc L k d)) docs)"
proof -
  have "is_mat (length (block_indices L k) + 1) (length (block_indices L k) + 1)
          (outer (aug_doc L k d) (aug_doc L k d))" for d
    using is_mat_outer[of "aug_doc L k d" "aug_doc L k d"] by (simp add: aug_doc_def)
  then show ?thesis by (simp add: list_all_iff)
qed

lemma all_is_mat_outer_target:
  "list_all (is_mat (length ids) (length (block_indices L k) + 1))
     (map (\<lambda>d. outer (map d ids) (aug_doc L k d)) docs)"
proof -
  have "is_mat (length ids) (length (block_indices L k) + 1) (outer (map d ids) (aug_doc L k d))" for d
    using is_mat_outer[of "map d ids" "aug_doc L k d"] by (simp add: aug_doc_def)
  then show ?thesis by (simp add: list_all_iff)
qed

lemma is_mat_exact_scatter:
  "is_mat (length (block_indices L k) + 1) (length (block_indices L k) + 1) (exact_scatter L k docs)"
  unfolding exact_scatter_def by (rule is_mat_mat_sum[OF all_is_mat_outer_aug])

lemma exact_scatter_append:
  "exact_scatter L k (seen @ chunk) = mat_plus (exact_scatter L k seen) (exact_scatter L k chunk)"
  unfolding exact_scatter_def map_append
  by (rule mat_sum_append[OF all_is_mat_outer_aug all_is_mat_outer_aug])

lemma exact_scatter_Nil: "exact_scatter L k [] = zeros (length (block_indices L k) + 1) (length (block_indices L k) + 1)"
  by (simp add: exact_scatter_def mat_sum_Nil)

lemma scatter_update:
  assumes "chunk \<noteq> []"
  shows "mat_add (exact_scatter L k seen)
           (dot (map (\<lambda>i. map (\<lambda>d. d i) chunk) (block_indices L k) @ [replicate (length chunk) 1])
             (mat_T (map (\<lambda>i. map (\<lambda>d. d i) chunk) (block_indices L k) @ [replicate (length chunk) 1])))
       = Inr (exact_scatter L k (seen @ chunk))"
  unfolding gram_of_chunk[OF assms] exact_scatter_append
  by (rule mat_add_is_mat[OF is_mat_exact_scatter is_mat_exact_scatter]) simp

lemma P_update:
  assumes "chunk \<noteq> []" and "0 < length ids"
  shows "mat_add (mat_sum (length ids) (length (block_indices L k) + 1)
                    (map (\<lambda>d. outer (map d ids) (aug_doc L k d)) seen))
           (dot (map (\<lambda>i. map (\<lambda>d. d i) chunk) ids)
             (mat_T (map (\<lambda>i. map (\<lambda>d. d i) chunk) (block_indices L k) @ [replicate (length chunk) 1])))
       = Inr (mat_sum (length ids) (length (block_indices L k) + 1)
                (map (\<lambda>d. outer (map d ids) (aug_doc L k d)) (seen @ chunk)))"
  unfolding cross_of_chunk[OF assms(1)] map_append
    mat_sum_append[OF all_is_mat_outer_target all_is_mat_outer_target]
  by (rule mat_add_is_mat[OF is_mat_mat_sum[OF all_is_mat_outer_target]
        is_mat_mat_sum[OF all_is_mat_outer_target] assms(2)])

lemma well_formed_block:
  assumes "well_formed L" and "k < num_folds L"
  shows "list_all (\<lambda>i. i < input_dimensionality L) (block_indices L k)"
    and "block_indices L k \<noteq> []"
proof -
  have p: "is_permutation (input_dimensionality L) (randomized_indices L)"
    and m: "0 < output_dimensionality L"
    and nf: "num_folds L = nat \<lceil>real (input_dimensionality L) / real (output_dimensionality L)\<rceil>"
    using assms(1) by (simp_all add: well_formed_def)
  have len: "length (randomized_indices L) = input_dimensionality L"
    using p by (simp add: is_permutation_def)
  have "set (block_indices L k) \<subseteq> set (randomized_indices L)"
    unfolding block_indices_def
    using set_take_subset[of "output_dimensionality L" "drop (k * output_dimensionality L) (randomized_indices L)"]
      set_drop_subset[of "k * output_dimensionality L" "randomized_indices L"] by blast
  then show "list_all (\<lambda>i. i < input_dimensionality L) (block_indices L k)"
    using p by (auto simp: is_permutation_def list_all_iff)
  show "block_indices L k \<noteq> []"
    by (rule fold_nonempty[OF m _ assms(2)]) (simp add: nf len)
qed

lemma well_formed_targets:
  assumes "well_formed L" and "prototype_ids L = Some ids"
  shows "length ids = output_dimensionality L" and "0 < length ids"
    and "list_all (\<lambda>i. i < input_dimensionality L) ids"
  using assms by (simp_all add: well_formed_def)

lemma well_formed_num_folds: "well_formed L \<Longrightarrow> 0 < num_folds L"
proof -
  assume wf: "well_formed L"
  have "0 * output_dimensionality L < input_dimensionality L"
    using wf by (simp add: well_formed_def)
  have "\<not> num_folds L = 0"
  proof
    assume z: "num_folds L = 0"
    have "input_dimensionality L
        \<le> nat \<lceil>real (input_dimensionality L) / real (output_dimensionality L)\<rceil> * output_dimensionality L"
      using wf by (intro ceiling_folds_cover) (simp add: well_formed_def)
    then show False using wf z by (simp add: well_formed_def)
  qed
  then show ?thesis by simp
qed


text \<open>
  One update of a fold, on the chunk matrix and the target representation that the
  iterator yields for a chunk of documents: the sums are formed and dropped, the list
  keeps the zero matrices.
\<close>

lemma fold_step_fresh:
  assumes wf: "well_formed L" and ch: "chunk \<noteq> []" and k: "length st < num_folds L"
  shows "fold_step L (corpus2csc chunk (input_dimensionality L))
           (map_option (\<lambda>ids. map (\<lambda>i. map (\<lambda>d. d i) chunk) ids) (prototype_ids L)) st (length st)
       = Inr (st @ [stored_zero L (length st)])"
proof (cases "prototype_ids L")
  case None
  show ?thesis
    using scatter_update[OF ch, of L "length st" "[]"]
    by (simp add: fold_step_def select_rows_corpus2csc[OF well_formed_block(1)[OF wf k]] Let_def
        ncols_rows_of_chunk[OF well_formed_block(2)[OF wf k]] None exact_scatter_Nil
        stored_zero_def)
next
  case (Some ids)
  show ?thesis
    using scatter_update[OF ch, of L "length st" "[]"]
      P_update[OF ch well_formed_targets(2)[OF wf Some], of L "length st" "[]"]
    by (simp add: fold_step_def select_rows_corpus2csc[OF well_formed_block(1)[OF wf k]] Let_def
        ncols_rows_of_chunk[OF well_formed_block(2)[OF wf k]] Some exact_scatter_Nil
        mat_sum_Nil well_formed_targets(1)[OF wf Some] stored_zero_def)
qed

lemma fold_step_stored:
  assumes wf: "well_formed L" and ch: "chunk \<noteq> []" and k: "k < num_folds L"
    and kl: "k < length st" and stk: "st ! k = stored_zero L k"
  shows "fold_step L (corpus2csc chunk (input_dimensionality L))
           (map_option (\<lambda>ids. map (\<lambda>i. map (\<lambda>d. d i) chunk) ids) (prototype_ids L)) st k
       = Inr st"
proof (cases "prototype_ids L")
  case None
  show ?thesis
    using kl stk scatter_update[OF ch, of L k "[]"]
    by (simp add: fold_step_def select_rows_corpus2csc[OF well_formed_block(1)[OF wf k]] Let_def
        ncols_rows_of_chunk[OF well_formed_block(2)[OF wf k]] None exact_scatter_Nil
        stored_zero_def)
next
  case (Some ids)
  show ?thesis
    using kl stk scatter_update[OF ch, of L k "[]"]
      P_update[OF ch well_formed_targets(2)[OF wf Some], of L k "[]"]
    by (simp add: fold_step_def select_rows_corpus2csc[OF well_formed_block(1)[OF wf k]] Let_def
        ncols_rows_of_chunk[OF well_formed_block(2)[OF wf k]] Some exact_scatter_Nil
        mat_sum_Nil well_formed_targets(1)[OF wf Some] stored_zero_def)
qed

lemma fold_loop_append:
  "fold_loop L job target st (xs @ ys)
   = (case fold_loop L job target st xs of Inl e \<Rightarrow> Inl e | Inr st' \<Rightarrow> fold_loop L job target st' ys)"
  by (induction xs arbitrary: st) (simp_all split: sum.splits)

lemma length_stored_state: "length (stored_state L) = num_folds L"
  by (simp add: stored_state_def)

lemma stored_state_nth: "k < num_folds L \<Longrightarrow> stored_state L ! k = stored_zero L k"
  by (simp add: stored_state_def)

lemma fold_loop_first_chunk:
  assumes wf: "well_formed L" and ch: "chunk \<noteq> []" and j: "j \<le> num_folds L"
  shows "fold_loop L (corpus2csc chunk (input_dimensionality L))
           (map_option (\<lambda>ids. map (\<lambda>i. map (\<lambda>d. d i) chunk) ids) (prototype_ids L)) [] [0..<j]
       = Inr (take j (stored_state L))"
  using j
proof (induction j)
  case 0
  then show ?case by simp
next
  case (Suc j)
  have j: "j < num_folds L" using Suc.prems by simp
  have t: "take (Suc j) (stored_state L) = take j (stored_state L) @ [stored_zero L j]"
    using j by (simp add: take_Suc_conv_app_nth length_stored_state stored_state_nth)
  have l: "length (take j (stored_state L)) = j"
    using j by (simp add: length_stored_state)
  have "length (take j (stored_state L)) < num_folds L" using j l by simp
  note fold_step_fresh[OF wf ch this]
  then show ?case
    using Suc j t l by (simp add: fold_loop_append)
qed

lemma fold_loop_next_chunk:
  assumes wf: "well_formed L" and ch: "chunk \<noteq> []" and j: "j \<le> num_folds L"
  shows "fold_loop L (corpus2csc chunk (input_dimensionality L))
           (map_option (\<lambda>ids. map (\<lambda>i. map (\<lambda>d. d i) chunk) ids) (prototype_ids L))
           (stored_state L) [0..<j]
       = Inr (stored_state L)"
  using j
proof (induction j)
  case 0
  then show ?case by simp
next
  case (Suc j)
  have j: "j < num_folds L" using Suc.prems by simp
  have l: "j < length (stored_state L)" using j by (simp add: length_stored_state)
  show ?case
    using Suc j
    by (simp add: fold_loop_append fold_step_stored[OF wf ch j l stored_state_nth[OF j]])
qed

lemma chunk_step_first:
  assumes wf: "well_formed L" and ch: "chunk \<noteq> []"
  shows "chunk_step L []
           (corpus2csc chunk (input_dimensionality L),
            map_option (\<lambda>ids. map (\<lambda>i. map (\<lambda>d. d i) chunk) ids) (prototype_ids L))
       = Inr (stored_state L)"
  using well_formed_num_folds[OF wf]
  by (simp add: chunk_step_def fold_loop_first_chunk[OF wf ch] length_stored_state)

lemma chunk_step_next:
  assumes wf: "well_formed L" and ch: "chunk \<noteq> []"
  shows "chunk_step L (stored_state L)
           (corpus2csc chunk (input_dimensionality L),
            map_option (\<lambda>ids. map (\<lambda>i. map (\<lambda>d. d i) chunk) ids) (prototype_ids L))
       = Inr (stored_state L)"
  using well_formed_num_folds[OF wf]
  by (simp add: chunk_step_def fold_loop_next_chunk[OF wf ch])

lemma iterator_chunks:
  assumes wf: "well_formed L"
  shows "FilteringDualGrouper_iter corpus (input_dimensionality L) (prototype_ids L) chunksize
       = map (\<lambda>chunk. Inr (corpus2csc chunk (input_dimensionality L),
                            map_option (\<lambda>ids. map (\<lambda>i. map (\<lambda>d. d i) chunk) ids) (prototype_ids L)))
           (grouper corpus chunksize)"
proof (cases "prototype_ids L")
  case None
  then show ?thesis by (simp add: FilteringDualGrouper_iter_def)
next
  case (Some ids)
  then show ?thesis
    by (simp add: FilteringDualGrouper_iter_def select_rows_corpus2csc[OF well_formed_targets(3)[OF wf Some]])
qed

lemma scatter_loop_stored:
  assumes wf: "well_formed L" and ne: "[] \<notin> set chunks"
  shows "scatter_loop L (stored_state L)
           (map (\<lambda>chunk. Inr (corpus2csc chunk (input_dimensionality L),
                                map_option (\<lambda>ids. map (\<lambda>i. map (\<lambda>d. d i) chunk) ids) (prototype_ids L)))
              chunks)
       = Inr (stored_state L)"
  using ne by (induction chunks) (auto simp: chunk_step_next[OF wf])

lemma scatter_loop_chunks:
  assumes wf: "well_formed L" and ne: "[] \<notin> set chunks"
  shows "scatter_loop L []
           (map (\<lambda>chunk. Inr (corpus2csc chunk (input_dimensionality L),
                                map_option (\<lambda>ids. map (\<lambda>i. map (\<lambda>d. d i) chunk) ids) (prototype_ids L)))
              chunks)
       = Inr (if chunks = [] then [] else stored_state L)"
proof (cases chunks)
  case Nil
  then show ?thesis by simp
next
  case (Cons chunk rest)
  then have "chunk \<noteq> []" and "[] \<notin> set rest" using ne by auto
  then show ?thesis
    using Cons by (simp add: chunk_step_first[OF wf] scatter_loop_stored[OF wf])
qed

lemma grouper_nonempty: "[] \<notin> set (grouper xs n)"
proof (induction xs n rule: grouper.induct)
  case (1 xs n)
  show ?case
  proof (cases "n = 0 \<or> xs = []")
    case True
    then show ?thesis by (subst grouper.simps) simp
  next
    case False
    then show ?thesis using 1 by (subst grouper.simps) auto
  qed
qed

lemma grouper_Nil_iff: "grouper xs n = [] \<longleftrightarrow> xs = [] \<or> n = 0"
  by (subst grouper.simps) auto

text \<open>
  The full pass of a well-formed layer leaves the zero matrices, one pair per fold, and
  nothing when no chunk is yielded.
\<close>

lemma build_scatters_stored:
  assumes wf: "well_formed L"
  shows "build_scatters L corpus chunksize
       = Inr (if corpus = [] \<or> chunksize = 0 then [] else stored_state L)"
  using scatter_loop_chunks[OF wf grouper_nonempty, of corpus chunksize]
  by (simp add: build_scatters_def iterator_chunks[OF wf] grouper_Nil_iff)

section \<open>The accumulated sums\<close>

text \<open>
  C4. The claim gives \<open>scatter[f]\<close> after the pass as the sum over all documents of the
  outer products of the augmented vectors. For the corpus of the two documents \<open>x = 1\<close>
  and \<open>x = 3\<close> over one dimension that sum is \<open>[[10, 4], [4, 2]]\<close>; the pass leaves the zero
  matrix that line 94 stored, because lines 102 and 109 bind the sums to the local names
  only.
\<close>

theorem build_scatters_keeps_zero_matrices:
  "build_scatters
     \<lparr>noise = 1/2, lambda' = 0, input_dimensionality = 1, output_dimensionality = 1,
      randomized_indices = [0], prototype_ids = None, num_folds = 1, blocks = []\<rparr>
     [\<lambda>i. 1, \<lambda>i. 3] 1
   = Inr [([[0, 0], [0, 0]], None)]
   \<and> exact_state
       \<lparr>noise = 1/2, lambda' = 0, input_dimensionality = 1, output_dimensionality = 1,
        randomized_indices = [0], prototype_ids = None, num_folds = 1, blocks = []\<rparr>
       [\<lambda>i. 1, \<lambda>i. 3]
     = [([[10, 4], [4, 2]], None)]"
  by code_simp


section \<open>Symmetry and positive semi-definiteness of the scatter matrices\<close>

lemma gram_quad:
  fixes v :: "nat \<Rightarrow> real" and x :: "nat \<Rightarrow> nat \<Rightarrow> real"
  shows "(\<Sum>i\<in>I. \<Sum>j\<in>I. v i * (\<Sum>k\<in>K. x i k * x j k) * v j) = (\<Sum>k\<in>K. (\<Sum>i\<in>I. v i * x i k)\<^sup>2)"
proof -
  have "(\<Sum>k\<in>K. (\<Sum>i\<in>I. v i * x i k)\<^sup>2) = (\<Sum>k\<in>K. \<Sum>i\<in>I. \<Sum>j\<in>I. (v i * x i k) * (v j * x j k))"
    by (simp add: power2_eq_square sum_product)
  also have "\<dots> = (\<Sum>i\<in>I. \<Sum>k\<in>K. \<Sum>j\<in>I. (v i * x i k) * (v j * x j k))"
    by (rule sum.swap)
  also have "\<dots> = (\<Sum>i\<in>I. \<Sum>j\<in>I. \<Sum>k\<in>K. (v i * x i k) * (v j * x j k))"
    by (intro sum.cong refl sum.swap)
  also have "\<dots> = (\<Sum>i\<in>I. \<Sum>j\<in>I. v i * (\<Sum>k\<in>K. x i k * x j k) * v j)"
    by (intro sum.cong refl) (simp add: sum_distrib_left sum_distrib_right mult_ac)
  finally show ?thesis by simp
qed

lemma quad_form_sum:
  "quad_form S v = (\<Sum>i\<in>{0..<length S}. \<Sum>j\<in>{0..<length S}. v ! i * S ! i ! j * v ! j)"
  by (simp add: quad_form_def interv_sum_list_conv_sum_set_nat)

lemma symmetric_square:
  assumes "symmetric S"
  shows "is_mat (length S) (length S) S"
proof -
  have e: "mat_T S = S" using assms by (simp add: symmetric_def)
  have "length S = ncols S" using length_mat_T[of S] e by simp
  then show ?thesis using is_mat_mat_T[of S] e by simp
qed

lemma symmetric_nth:
  assumes "symmetric S" "i < length S" "j < length S"
  shows "S ! i ! j = S ! j ! i"
proof -
  have e: "mat_T S = S" using assms(1) by (simp add: symmetric_def)
  have nc: "ncols S = length S" using length_mat_T[of S] e by simp
  have "mat_T S ! i ! j = S ! j ! i" using assms(2,3) by (simp add: mat_T_nth nc)
  then show ?thesis using e by simp
qed

lemma symmetricI:
  assumes m: "is_mat n n S" and s: "\<And>i j. i < n \<Longrightarrow> j < n \<Longrightarrow> S ! i ! j = S ! j ! i"
  shows "symmetric S"
proof (cases "n = 0")
  case True
  then have "S = []" using m by (simp add: is_mat_def)
  then show ?thesis by (simp add: symmetric_def mat_T_def ncols_def)
next
  case False
  then have n: "0 < n" by simp
  have nc: "ncols S = n" by (rule is_mat_ncols[OF m n])
  have len: "length S = n" using m by (simp add: is_mat_def)
  have "mat_T S = S"
  proof (rule mat_eqI[where m=n and n=n])
    show "is_mat n n (mat_T S)" using is_mat_mat_T[of S] by (simp add: nc len)
    show "is_mat n n S" by (rule m)
  next
    fix i j assume "i < n" "j < n"
    then show "mat_T S ! i ! j = S ! i ! j"
      using s[of j i] by (simp add: mat_T_nth nc len)
  qed
  then show ?thesis by (simp add: symmetric_def)
qed

lemma symmetric_zeros: "symmetric (zeros n n)"
  by (rule symmetricI[OF is_mat_zeros]) (simp add: zeros_nth)

lemma psd_zeros: "psd (zeros n n)"
proof -
  have "quad_form (zeros n n) v = 0" for v
    unfolding quad_form_sum by (rule sum.neutral, intro ballI sum.neutral) (simp add: zeros_def)
  then show ?thesis by (simp add: psd_def)
qed

text \<open>Adding the product of a matrix with its transpose keeps both properties.\<close>

lemma gram_update_ok:
  assumes sym: "symmetric S" and psd: "psd S" and X: "X \<noteq> []"
    and add: "mat_add S (dot X (mat_T X)) = Inr S'"
  shows "symmetric S' \<and> psd S'"
proof -
  let ?G = "dot X (mat_T X)"
  define n where "n = length X"
  have n: "0 < n" using X by (simp add: n_def)
  have sh: "shape S = shape ?G" and S': "S' = mat_plus S ?G"
    using add by (auto simp: mat_add_def split: if_splits)
  have lG: "length ?G = n" by (simp add: dot_def n_def)
  have lS: "length S = n" using sh lG by (simp add: shape_def)
  have mS: "is_mat n n S" using symmetric_square[OF sym] lS by simp
  have "ncols ?G = ncols S" using sh by (simp add: shape_def)
  also have "\<dots> = n" by (rule is_mat_ncols[OF mS n])
  finally have ncG: "ncols ?G = n" .
  have mG0: "is_mat n (ncols (mat_T X)) ?G" using is_mat_dot[of X "mat_T X"] by (simp add: n_def)
  have "ncols (mat_T X) = n" using is_mat_ncols[OF mG0 n] ncG by simp
  then have "mat_T X \<noteq> []" using n by (auto simp: ncols_def)
  then have N: "0 < ncols X" using length_mat_T[of X] by (cases "ncols X") auto
  have mG: "is_mat n n ?G" using mG0 ncols_mat_T[OF N] by (simp add: n_def)
  have G: "\<And>i j. i < n \<Longrightarrow> j < n \<Longrightarrow> ?G ! i ! j = (\<Sum>k\<in>{0..<ncols X}. X ! i ! k * X ! j ! k)"
    using gram_nth[OF _ _ N] by (simp add: n_def interv_sum_list_conv_sum_set_nat)
  have mS': "is_mat n n S'" unfolding S' by (rule is_mat_mat_plus[OF mS mG])
  have e: "\<And>i j. i < n \<Longrightarrow> j < n \<Longrightarrow> S' ! i ! j = S ! i ! j + ?G ! i ! j"
    unfolding S' by (rule mat_plus_nth[OF mS mG])
  have "symmetric S'"
  proof (rule symmetricI[OF mS'])
    fix i j assume ij: "i < n" "j < n"
    have "S ! i ! j = S ! j ! i" using symmetric_nth[OF sym] ij lS by simp
    moreover have "?G ! i ! j = ?G ! j ! i" using ij by (simp add: G mult.commute)
    ultimately show "S' ! i ! j = S' ! j ! i" using ij by (simp add: e)
  qed
  moreover have "psd S'"
    unfolding psd_def
  proof (intro allI impI)
    fix v :: vec assume "length v = length S'"
    then have lv: "length v = length S" using mS' lS by (simp add: is_mat_def)
    have lS': "length S' = n" using mS' by (simp add: is_mat_def)
    have "quad_form S' v = (\<Sum>i\<in>{0..<n}. \<Sum>j\<in>{0..<n}. v ! i * (S ! i ! j + ?G ! i ! j) * v ! j)"
      unfolding quad_form_sum lS' by (intro sum.cong refl) (simp add: e)
    also have "\<dots> = (\<Sum>i\<in>{0..<n}. \<Sum>j\<in>{0..<n}. v ! i * S ! i ! j * v ! j)
        + (\<Sum>i\<in>{0..<n}. \<Sum>j\<in>{0..<n}. v ! i * ?G ! i ! j * v ! j)"
      by (simp add: sum.distrib[symmetric] distrib_left distrib_right)
    also have "(\<Sum>i\<in>{0..<n}. \<Sum>j\<in>{0..<n}. v ! i * S ! i ! j * v ! j) = quad_form S v"
      by (simp add: quad_form_sum lS)
    also have "(\<Sum>i\<in>{0..<n}. \<Sum>j\<in>{0..<n}. v ! i * ?G ! i ! j * v ! j)
        = (\<Sum>i\<in>{0..<n}. \<Sum>j\<in>{0..<n}. v ! i * (\<Sum>k\<in>{0..<ncols X}. X ! i ! k * X ! j ! k) * v ! j)"
      by (intro sum.cong refl) (simp add: G)
    also have "\<dots> = (\<Sum>k\<in>{0..<ncols X}. (\<Sum>i\<in>{0..<n}. v ! i * X ! i ! k)\<^sup>2)"
      by (rule gram_quad)
    finally have "quad_form S' v = quad_form S v + (\<Sum>k\<in>{0..<ncols X}. (\<Sum>i\<in>{0..<n}. v ! i * X ! i ! k)\<^sup>2)" .
    moreover have "0 \<le> quad_form S v" using psd lv by (simp add: psd_def)
    moreover have "0 \<le> (\<Sum>k\<in>{0..<ncols X}. (\<Sum>i\<in>{0..<n}. v ! i * X ! i ! k)\<^sup>2)"
      by (intro sum_nonneg) simp
    ultimately show "0 \<le> quad_form S' v" by simp
  qed
  ultimately show ?thesis by simp
qed


lemma fold_step_result:
  assumes "fold_step L job T st k = Inr st'"
  shows "st' = st \<or> (\<exists>n P0. st' = st @ [(zeros n n, P0)])"
proof -
  obtain block_data where sel: "select_rows job (block_indices L k) = Inr block_data"
    using assms by (cases "select_rows job (block_indices L k)") (auto simp: fold_step_def Let_def)
  show ?thesis
  proof (cases "length st \<le> k")
    case True
    then have "st' = st @ [(zeros (length (block_indices L k) + 1) (length (block_indices L k) + 1),
        (case T of Some _ \<Rightarrow> Some (zeros (output_dimensionality L) (length (block_indices L k) + 1))
         | None \<Rightarrow> None))]"
      using assms
      by (auto simp: fold_step_def sel Let_def split: sum.splits option.splits)
    then show ?thesis by blast
  next
    case False
    obtain S P where sp: "st ! k = (S, P)" by (cases "st ! k")
    have "st' = st"
      using assms False sp
      by (auto simp: fold_step_def sel Let_def split: sum.splits option.splits)
    then show ?thesis by simp
  qed
qed

lemma fold_step_ok:
  assumes ok: "scatters_ok st" and step: "fold_step L job T st k = Inr st'"
  shows "scatters_ok st'"
  using fold_step_result[OF step] ok
  by (auto simp: scatters_ok_def symmetric_zeros psd_zeros)

lemma accumulating_ok: "accumulating L st \<Longrightarrow> scatters_ok st"
proof (induction rule: accumulating.induct)
  case start
  then show ?case by (simp add: scatters_ok_def)
next
  case (update st doc_chunk target k st')
  then show ?case using fold_step_ok by blast
qed

lemma scatter_after_update_ok:
  assumes ok: "scatters_ok st" and upd: "scatter_after_update L job st k = Inr S'"
  shows "symmetric S' \<and> psd S'"
proof -
  obtain block_data where sel: "select_rows job (block_indices L k) = Inr block_data"
    using upd
    by (cases "select_rows job (block_indices L k)") (auto simp: scatter_after_update_def Let_def)
  define X where "X = block_data @ [replicate (ncols block_data) 1]"
  have X: "X \<noteq> []" by (simp add: X_def)
  show ?thesis
  proof (cases "length st \<le> k")
    case True
    then have "mat_add (zeros (length (block_indices L k) + 1) (length (block_indices L k) + 1))
        (dot X (mat_T X)) = Inr S'"
      using upd by (simp add: scatter_after_update_def sel Let_def X_def)
    then show ?thesis by (rule gram_update_ok[OF symmetric_zeros psd_zeros X])
  next
    case False
    then have "st ! k \<in> set st" by simp
    then have s: "symmetric (fst (st ! k))" "psd (fst (st ! k))"
      using ok by (auto simp: scatters_ok_def)
    have "mat_add (fst (st ! k)) (dot X (mat_T X)) = Inr S'"
      using upd False by (simp add: scatter_after_update_def sel Let_def X_def)
    then show ?thesis by (rule gram_update_ok[OF s X])
  qed
qed

lemma fold_loop_accumulating:
  "accumulating L st \<Longrightarrow> fold_loop L job T st ks = Inr st' \<Longrightarrow> accumulating L st'"
proof (induction ks arbitrary: st)
  case Nil
  then show ?case by simp
next
  case (Cons k ks)
  then obtain st1 where s: "fold_step L job T st k = Inr st1" and r: "fold_loop L job T st1 ks = Inr st'"
    by (auto split: sum.splits)
  have "accumulating L st1" by (rule accumulating.update[OF Cons.prems(1) s])
  then show ?case using Cons.IH r by blast
qed

lemma chunk_step_accumulating:
  "accumulating L st \<Longrightarrow> chunk_step L st chunk = Inr st' \<Longrightarrow> accumulating L st'"
  using fold_loop_accumulating[of L st "fst chunk" "snd chunk" "[0..<num_folds L]" st']
  by (auto simp: chunk_step_def split: sum.splits if_splits)

lemma scatter_loop_accumulating:
  "accumulating L st \<Longrightarrow> scatter_loop L st chunks = Inr st' \<Longrightarrow> accumulating L st'"
proof (induction L st chunks rule: scatter_loop.induct)
  case (1 L st)
  then show ?case by simp
next
  case (2 L st e rest)
  then show ?case by simp
next
  case (3 L st chunk rest)
  then obtain st1 where s: "chunk_step L st chunk = Inr st1" and r: "scatter_loop L st1 rest = Inr st'"
    by (auto split: sum.splits)
  have "accumulating L st1" by (rule chunk_step_accumulating[OF "3.prems"(1) s])
  then show ?case using "3.IH"[OF s] r by blast
qed

lemma build_scatters_accumulating:
  "build_scatters L corpus chunksize = Inr st \<Longrightarrow> accumulating L st"
  unfolding build_scatters_def by (rule scatter_loop_accumulating[OF accumulating.start])

text \<open>
  C8. In every state that the accumulator list passes through (the empty list, and what
  the iteration for one fold and one chunk makes of such a state), and so after every
  chunk and after the full pass, every stored scatter matrix equals its transpose and is
  positive semi-definite; and so is the matrix that the name \<open>scatter\<close> is bound to after
  the update of line 102, in every such state.
\<close>

theorem scatter_symmetric_and_psd:
  "(accumulating L st \<longrightarrow> (\<forall>sp \<in> set st. symmetric (fst sp) \<and> psd (fst sp)))
   \<and> (accumulating L st \<and> scatter_after_update L doc_chunk st k = Inr S
        \<longrightarrow> symmetric S \<and> psd S)
   \<and> (scatter_loop L [] chunks = Inr st \<longrightarrow> (\<forall>sp \<in> set st. symmetric (fst sp) \<and> psd (fst sp)))
   \<and> (build_scatters L corpus chunksize = Inr st \<longrightarrow> (\<forall>sp \<in> set st. symmetric (fst sp) \<and> psd (fst sp)))"
  using accumulating_ok[of L st] build_scatters_accumulating[of L corpus chunksize st]
    scatter_loop_accumulating[OF accumulating.start, of L chunks st]
    scatter_after_update_ok[of st L doc_chunk k S]
  by (auto simp: scatters_ok_def)

theorem scatter_symmetric_and_psd_witness:
  "build_scatters \<lparr>noise = 1/2, lambda' = 0, input_dimensionality = 1, output_dimensionality = 1,
      randomized_indices = [0], prototype_ids = None, num_folds = 1, blocks = []\<rparr>
      [\<lambda>i. 1, \<lambda>i. 3] 2
     = Inr [([[0, 0], [0, 0]], None)]
   \<and> scatter_after_update
       \<lparr>noise = 1/2, lambda' = 0, input_dimensionality = 1, output_dimensionality = 1,
        randomized_indices = [0], prototype_ids = None, num_folds = 1, blocks = []\<rparr>
       (corpus2csc [\<lambda>i. 1, \<lambda>i. 3] 1) [] 0
     = Inr [[10, 4], [4, 2]]
   \<and> symmetric [[0, 0], [0, 0]] \<and> psd [[0, 0], [0, 0]]
   \<and> symmetric [[10, 4], [4, 2]] \<and> psd [[10, 4], [4, 2]]"
proof -
  let ?L = "\<lparr>noise = 1/2, lambda' = 0, input_dimensionality = 1, output_dimensionality = 1,
      randomized_indices = [0], prototype_ids = None, num_folds = 1, blocks = []\<rparr>"
  let ?corpus = "[\<lambda>i. 1, \<lambda>i. 3] :: doc list"
  let ?st = "[([[0, 0], [0, 0]], None)] :: (mat \<times> mat option) list"
  have b: "build_scatters ?L ?corpus 2 = Inr ?st"
    by code_simp
  have u: "scatter_after_update ?L (corpus2csc ?corpus 1) [] 0 = Inr [[10, 4], [4, 2]]"
    by code_simp
  have a: "accumulating ?L []" by (rule accumulating.start)
  show ?thesis
    using scatter_symmetric_and_psd[of ?L ?st "corpus2csc ?corpus 1" 0 "[[0, 0], [0, 0]]" "[]" ?corpus 2]
      scatter_symmetric_and_psd[of ?L "[]" "corpus2csc ?corpus 1" 0 "[[10, 4], [4, 2]]" "[]" ?corpus 2]
      b u a
    by simp
qed


section \<open>Inference\<close>

lemma is_mat_shape_eq:
  assumes "is_mat m n A" and "is_mat m n B"
  shows "shape A = shape B"
proof (cases "m = 0")
  case True
  then have "A = []" "B = []" using assms by (simp_all add: is_mat_def)
  then show ?thesis by simp
next
  case False
  then show ?thesis using assms by (simp add: shape_is_mat)
qed

lemma is_mat_mat_scale: "is_mat m n A \<Longrightarrow> is_mat m n (mat_scale c A)"
  by (simp add: is_mat_def mat_scale_def list_all_length)

lemma mat_scale_nth: "is_mat m n A \<Longrightarrow> i < m \<Longrightarrow> j < n \<Longrightarrow> mat_scale c A ! i ! j = c * A ! i ! j"
  by (simp add: is_mat_def mat_scale_def list_all_length)

lemma is_mat_mat_minus: "is_mat m n A \<Longrightarrow> is_mat m n B \<Longrightarrow> is_mat m n (mat_minus A B)"
  by (simp add: is_mat_def mat_minus_def list_all_length)

lemma mat_minus_nth:
  "is_mat m n A \<Longrightarrow> is_mat m n B \<Longrightarrow> i < m \<Longrightarrow> j < n \<Longrightarrow>
   mat_minus A B ! i ! j = A ! i ! j - B ! i ! j"
  by (simp add: is_mat_def mat_minus_def list_all_length)

lemma avg_update_closed:
  assumes a: "is_mat m n avg" and h: "is_mat m n hidden"
  shows "avg_update k avg hidden
       = Inr (mat_plus avg (mat_scale (1 / (real k + 1)) (mat_minus hidden avg)))"
proof -
  have d: "is_mat m n (mat_scale (1 / (real k + 1)) (mat_minus hidden avg))"
    by (rule is_mat_mat_scale[OF is_mat_mat_minus[OF h a]])
  show ?thesis
    by (simp add: avg_update_def mat_sub_def mat_add_def is_mat_shape_eq[OF h a]
        is_mat_shape_eq[OF a d])
qed

lemma block_hidden_closed:
  assumes wf: "well_formed L" and tr: "trained L m"
    and X: "is_mat (input_dimensionality L) n X" and k: "k < num_folds L"
  shows "block_hidden L X k = Inr (fold_product L X k)" and "is_mat m n (fold_product L X k)"
proof -
  let ?idxs = "block_indices L k"
  let ?B = "map (\<lambda>i. X ! i) ?idxs @ [replicate (ncols X) 1]"
  have len: "length X = input_dimensionality L" using X by (simp add: is_mat_def)
  have pos: "0 < input_dimensionality L" using wf by (simp add: well_formed_def)
  have ncX: "ncols X = n" by (rule is_mat_ncols[OF X pos])
  have idx: "list_all (\<lambda>i. i < length X) ?idxs"
    using well_formed_block(1)[OF wf k] by (simp add: len)
  have ne: "?idxs \<noteq> []" by (rule well_formed_block(2)[OF wf k])
  have sel: "select_rows X ?idxs = Inr (map (\<lambda>i. X ! i) ?idxs)"
    using idx by (simp add: select_rows_def)
  have rows: "\<And>i. i \<in> set ?idxs \<Longrightarrow> length (X ! i) = n"
    using idx is_mat_row[OF X] by (auto simp: list_all_iff len)
  have mB: "is_mat (length ?idxs + 1) n ?B"
    using rows by (auto simp: is_mat_def list_all_iff ncX)
  have ncB: "ncols ?B = n" by (rule is_mat_ncols[OF mB]) simp
  have ncD: "ncols (map (\<lambda>i. X ! i) ?idxs) = n"
    using ne rows by (cases ?idxs) (simp_all add: ncols_def)
  have kb: "k < length (blocks L)" and W: "is_mat m (length ?idxs + 1) (blocks L ! k)"
    using tr k by (simp_all add: trained_def list_all_iff)
  have chk: "list_all (\<lambda>r. length r = length ?B) (blocks L ! k)"
    using W by (simp add: is_mat_def)
  show "block_hidden L X k = Inr (fold_product L X k)"
    using chk kb
    by (simp add: block_hidden_def sel get_intermediate_representations_def np_dot_def ncD ncX
        fold_product_def)
  show "is_mat m n (fold_product L X k)"
    unfolding fold_product_def using is_mat_dot[of "blocks L ! k" ?B] W
    by (simp add: ncB is_mat_def)
qed

lemma hidden_loop_append:
  "hidden_loop L X avg (xs @ ys)
   = (case hidden_loop L X avg xs of Inl e \<Rightarrow> Inl e | Inr avg' \<Rightarrow> hidden_loop L X avg' ys)"
  by (induction xs arbitrary: avg) (simp_all split: sum.splits option.splits)

lemma all_is_mat_products:
  assumes wf: "well_formed L" and tr: "trained L m"
    and X: "is_mat (input_dimensionality L) n X" and k: "k \<le> num_folds L"
  shows "list_all (is_mat m n) (map (fold_product L X) [0..<k])"
  using block_hidden_closed(2)[OF wf tr X] k by (simp add: list_all_iff)

lemma is_mat_mean_hidden_upto:
  assumes wf: "well_formed L" and tr: "trained L m"
    and X: "is_mat (input_dimensionality L) n X" and k: "k \<le> num_folds L"
  shows "is_mat m n (mean_hidden_upto L m n X k)"
  unfolding mean_hidden_upto_def
  by (rule is_mat_mat_scale[OF is_mat_mat_sum[OF all_is_mat_products[OF wf tr X k]]])

lemma mean_hidden_upto_nth:
  assumes wf: "well_formed L" and tr: "trained L m"
    and X: "is_mat (input_dimensionality L) n X" and k: "k \<le> num_folds L"
    and ij: "i < m" "j < n"
  shows "mean_hidden_upto L m n X k ! i ! j
       = (1 / real k) * (\<Sum>t\<leftarrow>[0..<k]. fold_product L X t ! i ! j)"
proof -
  note all = all_is_mat_products[OF wf tr X k]
  show ?thesis
    unfolding mean_hidden_upto_def
    using mat_sum_nth[OF all ij]
    by (simp add: mat_scale_nth[OF is_mat_mat_sum[OF all] ij] comp_def)
qed

lemma mean_hidden_upto_one:
  assumes wf: "well_formed L" and tr: "trained L m"
    and X: "is_mat (input_dimensionality L) n X"
  shows "mean_hidden_upto L m n X 1 = fold_product L X 0"
proof (rule mat_eqI[where m=m and n=n])
  have one: "1 \<le> num_folds L" using well_formed_num_folds[OF wf] by simp
  show "is_mat m n (mean_hidden_upto L m n X 1)"
    by (rule is_mat_mean_hidden_upto[OF wf tr X one])
  show "is_mat m n (fold_product L X 0)"
    by (rule block_hidden_closed(2)[OF wf tr X well_formed_num_folds[OF wf]])
  fix i j assume ij: "i < m" "j < n"
  show "mean_hidden_upto L m n X 1 ! i ! j = fold_product L X 0 ! i ! j"
    using mean_hidden_upto_nth[OF wf tr X one ij] by simp
qed

lemma running_mean_step:
  fixes K s h :: real
  assumes "0 < K"
  shows "(1 / K) * s + (1 / (K + 1)) * (h - (1 / K) * s) = (1 / (K + 1)) * (s + h)"
proof -
  have "K \<noteq> 0" "K + 1 \<noteq> 0" using assms by simp_all
  then show ?thesis by (simp add: divide_simps) (simp add: algebra_simps)
qed

text \<open>The incremental update turns the mean of \<open>k\<close> folds into the mean of \<open>k + 1\<close> folds.\<close>

lemma avg_update_mean:
  assumes wf: "well_formed L" and tr: "trained L m"
    and X: "is_mat (input_dimensionality L) n X" and k: "k < num_folds L" and k0: "0 < k"
  shows "avg_update k (mean_hidden_upto L m n X k) (fold_product L X k)
       = Inr (mean_hidden_upto L m n X (Suc k))"
proof -
  let ?M = "mean_hidden_upto L m n X k" and ?H = "fold_product L X k"
  have kl: "k \<le> num_folds L" and sk: "Suc k \<le> num_folds L" using k by simp_all
  have mM: "is_mat m n ?M" by (rule is_mat_mean_hidden_upto[OF wf tr X kl])
  have mH: "is_mat m n ?H" by (rule block_hidden_closed(2)[OF wf tr X k])
  have mD: "is_mat m n (mat_scale (1 / (real k + 1)) (mat_minus ?H ?M))"
    by (rule is_mat_mat_scale[OF is_mat_mat_minus[OF mH mM]])
  have "mat_plus ?M (mat_scale (1 / (real k + 1)) (mat_minus ?H ?M)) = mean_hidden_upto L m n X (Suc k)"
  proof (rule mat_eqI[where m=m and n=n])
    show "is_mat m n (mat_plus ?M (mat_scale (1 / (real k + 1)) (mat_minus ?H ?M)))"
      by (rule is_mat_mat_plus[OF mM mD])
    show "is_mat m n (mean_hidden_upto L m n X (Suc k))"
      by (rule is_mat_mean_hidden_upto[OF wf tr X sk])
  next
    fix i j assume ij: "i < m" "j < n"
    define s where "s = (\<Sum>t\<leftarrow>[0..<k]. fold_product L X t ! i ! j)"
    define h where "h = ?H ! i ! j"
    have a: "?M ! i ! j = (1 / real k) * s"
      unfolding s_def by (rule mean_hidden_upto_nth[OF wf tr X kl ij])
    have b: "mean_hidden_upto L m n X (Suc k) ! i ! j = (1 / real (Suc k)) * (s + h)"
      using mean_hidden_upto_nth[OF wf tr X sk ij] by (simp add: s_def h_def)
    have "mat_plus ?M (mat_scale (1 / (real k + 1)) (mat_minus ?H ?M)) ! i ! j
        = ?M ! i ! j + (1 / (real k + 1)) * (h - ?M ! i ! j)"
      by (simp add: mat_plus_nth[OF mM mD ij] mat_scale_nth[OF is_mat_mat_minus[OF mH mM] ij]
          mat_minus_nth[OF mH mM ij] h_def)
    also have "\<dots> = (1 / real (Suc k)) * (s + h)"
      using running_mean_step[of "real k" s h] k0 by (simp add: a add.commute)
    finally show "mat_plus ?M (mat_scale (1 / (real k + 1)) (mat_minus ?H ?M)) ! i ! j
        = mean_hidden_upto L m n X (Suc k) ! i ! j"
      using b by simp
  qed
  then show ?thesis by (simp add: avg_update_closed[OF mM mH])
qed

lemma hidden_loop_prefix:
  assumes wf: "well_formed L" and tr: "trained L m"
    and X: "is_mat (input_dimensionality L) n X" and k: "Suc k \<le> num_folds L"
  shows "hidden_loop L X None [0..<Suc k] = Inr (Some (mean_hidden_upto L m n X (Suc k)))"
  using k
proof (induction k)
  case 0
  then show ?case
    using block_hidden_closed(1)[OF wf tr X, of 0] mean_hidden_upto_one[OF wf tr X]
    by simp
next
  case (Suc k)
  have k: "Suc k < num_folds L" using Suc.prems by simp
  have "hidden_loop L X None [0..<Suc (Suc k)]
      = (case hidden_loop L X None [0..<Suc k] of Inl e \<Rightarrow> Inl e
         | Inr avg' \<Rightarrow> hidden_loop L X avg' [Suc k])"
    using hidden_loop_append[of L X None "[0..<Suc k]" "[Suc k]"] by simp
  also have "\<dots> = hidden_loop L X (Some (mean_hidden_upto L m n X (Suc k))) [Suc k]"
    using Suc by simp
  also have "\<dots> = Inr (Some (mean_hidden_upto L m n X (Suc (Suc k))))"
    using block_hidden_closed(1)[OF wf tr X k] avg_update_mean[OF wf tr X k]
    by simp
  finally show ?case .
qed

lemma get_hidden_closed:
  assumes wf: "well_formed L" and tr: "trained L m"
    and X: "is_mat (input_dimensionality L) n X"
  shows "get_hidden_representations L X = Inr (map (map tanh) (mean_hidden L m n X))"
proof -
  obtain k where k: "num_folds L = Suc k"
    using well_formed_num_folds[OF wf] by (cases "num_folds L") auto
  have "hidden_loop L X None [0..<num_folds L] = Inr (Some (mean_hidden L m n X))"
    using hidden_loop_prefix[OF wf tr X, of k] k by (simp add: mean_hidden_def)
  then show ?thesis by (simp add: get_hidden_representations_def)
qed

lemma tanh_entries: "in_open_unit (map (map tanh) A)"
  by (simp add: in_open_unit_def list_all_iff tanh_real_gt_neg1 tanh_real_lt_1)

lemma get_hidden_in_open_unit:
  "get_hidden_representations L X = Inr R \<Longrightarrow> in_open_unit R"
  using tanh_entries by (auto simp: get_hidden_representations_def split: sum.splits option.splits)

text \<open>
  C7. For a well-formed layer with one weight matrix of \<open>m\<close> rows per fold and an input
  matrix with one row per input dimension: for each fold, in index order, inference
  forms the product of the fold's weights with the fold's rows of the input and a bias
  row of ones; the update \<open>avg += (1 / (k + 1)) * (new - avg)\<close> turns the mean of the first
  \<open>k\<close> products into the mean of the first \<open>k + 1\<close>, so that after fold \<open>k\<close> the running
  average is the arithmetic mean of the products of folds \<open>0\<close> to \<open>k\<close>; and the result is
  the element-wise \<open>tanh\<close> of the mean over all folds.
\<close>

theorem inference_is_tanh_of_fold_mean:
  assumes "well_formed L" and "trained L m" and "is_mat (input_dimensionality L) n X"
  shows "(\<forall>k<num_folds L. block_hidden L X k = Inr (fold_product L X k))
       \<and> (\<forall>k. 0 < k \<and> k < num_folds L \<longrightarrow>
             avg_update k (mean_hidden_upto L m n X k) (fold_product L X k)
               = Inr (mean_hidden_upto L m n X (Suc k)))
       \<and> (\<forall>k<num_folds L.
             hidden_loop L X None [0..<Suc k] = Inr (Some (mean_hidden_upto L m n X (Suc k))))
       \<and> get_hidden_representations L X = Inr (map (map tanh) (mean_hidden L m n X))"
  using block_hidden_closed(1)[OF assms] avg_update_mean[OF assms]
    hidden_loop_prefix[OF assms] get_hidden_closed[OF assms]
  by (simp add: Suc_le_eq)

theorem inference_is_tanh_of_fold_mean_witness:
  "get_hidden_representations
     \<lparr>noise = 1/2, lambda' = 0, input_dimensionality = 2, output_dimensionality = 1,
      randomized_indices = [1, 0], prototype_ids = Some [0], num_folds = 2,
      blocks = [[[1, 0]], [[0, 1]]]\<rparr> [[2], [4]]
   = Inr [[tanh (5 / 2)]]"
proof -
  let ?L = "\<lparr>noise = 1/2, lambda' = 0, input_dimensionality = 2, output_dimensionality = 1,
      randomized_indices = [1, 0], prototype_ids = Some [0], num_folds = 2,
      blocks = [[[1, 0]], [[0, 1]]]\<rparr>"
  have wf: "well_formed ?L"
    by (simp add: well_formed_def is_permutation_def)
  have tr: "trained ?L 1"
    by (simp add: trained_def is_mat_def block_indices_def upt_rec)
  have X: "is_mat (input_dimensionality ?L) 1 [[2], [4]]"
    by (simp add: is_mat_def)
  have m: "mean_hidden ?L 1 1 [[2], [4]] = [[5 / 2]]"
    by code_simp
  show ?thesis
    using inference_is_tanh_of_fold_mean[OF wf tr X] m by simp
qed


section \<open>The trained weights\<close>

lemma sq_norm_nonneg: "0 \<le> sq_norm M"
  unfolding sq_norm_def by (intro sum_list_nonneg) (auto intro!: sum_list_nonneg)

lemma sq_norm_zeros: "sq_norm (zeros a b) = 0"
  by (simp add: sq_norm_def zeros_def sum_list_replicate)

lemma ncols_zeros: "0 < n \<Longrightarrow> ncols (zeros n m) = m"
  by (rule is_mat_ncols[OF is_mat_zeros])

lemma dot_zeros:
  assumes "0 < n"
  shows "dot A (zeros n m) = zeros (length A) m"
proof (rule mat_eqI[where m="length A" and n=m])
  show "is_mat (length A) m (dot A (zeros n m))"
    using is_mat_dot[of A "zeros n m"] by (simp add: ncols_zeros[OF assms])
  show "is_mat (length A) m (zeros (length A) m)" by (rule is_mat_zeros)
next
  fix i j assume ij: "i < length A" "j < m"
  have "(\<Sum>k\<leftarrow>[0..<n]. A ! i ! k * zeros n m ! k ! j) = (\<Sum>k\<leftarrow>[0..<n]. 0)"
    using ij by (intro arg_cong[where f=sum_list] map_cong) (simp_all add: zeros_nth)
  then show "dot A (zeros n m) ! i ! j = zeros (length A) m ! i ! j"
    using ij by (simp add: dot_nth ncols_zeros[OF assms] zeros_nth is_mat_length[OF is_mat_zeros])
qed

lemma mat_minus_zeros: "mat_minus (zeros a b) (zeros a b) = zeros a b"
  by (rule mat_eqI[where m=a and n=b])
     (simp_all add: is_mat_mat_minus is_mat_zeros mat_minus_nth[OF is_mat_zeros is_mat_zeros] zeros_nth)

lemma residual_zeros:
  assumes "0 < n" and "length A = n"
  shows "residual A (zeros n m) (zeros n m) = 0"
  by (simp add: residual_def dot_zeros[OF assms(1)] assms(2) mat_minus_zeros sq_norm_zeros)

lemma sq_norm_zero_entries:
  assumes "sq_norm X = 0" and "r \<in> set X" and "x \<in> set r"
  shows "x = 0"
proof -
  have nn: "\<And>r. 0 \<le> (\<Sum>x\<leftarrow>r. x\<^sup>2 :: real)" by (intro sum_list_nonneg) auto
  have "(\<Sum>r\<leftarrow>X. \<Sum>x\<leftarrow>r. x\<^sup>2) = 0" using assms(1) by (simp add: sq_norm_def)
  then have "\<forall>s\<in>set (map (\<lambda>r. \<Sum>x\<leftarrow>r. x\<^sup>2) X). s = 0"
    using nn by (subst (asm) sum_list_nonneg_eq_0_iff) auto
  then have "(\<Sum>x\<leftarrow>r. x\<^sup>2) = 0" using assms(2) by simp
  then have "\<forall>s\<in>set (map (\<lambda>x. x\<^sup>2) r). s = 0"
    by (subst (asm) sum_list_nonneg_eq_0_iff) auto
  then show ?thesis using assms(3) by simp
qed

lemma sq_norm_zero_is_zeros:
  assumes "sq_norm X = 0" and "is_mat n m X"
  shows "X = zeros n m"
proof (rule mat_eqI[where m=n and n=m])
  show "is_mat n m X" by (rule assms(2))
  show "is_mat n m (zeros n m)" by (rule is_mat_zeros)
next
  fix i j assume ij: "i < n" "j < m"
  have "X ! i \<in> set X" using ij assms(2) by (simp add: is_mat_def)
  moreover have "X ! i ! j \<in> set (X ! i)" using ij is_mat_row[OF assms(2)] by simp
  ultimately have "X ! i ! j = 0" by (rule sq_norm_zero_entries[OF assms(1)])
  then show "X ! i ! j = zeros n m ! i ! j" using ij by (simp add: zeros_nth)
qed

text \<open>For a zero right-hand side the minimum-norm least-squares solution is the zero matrix.\<close>

lemma min_norm_lstsq_zero:
  assumes A: "is_mat n n A" and n: "0 < n" and m: "0 < m"
  shows "min_norm_lstsq A (zeros n m) X \<longleftrightarrow> X = zeros n m"
proof -
  have ncA: "ncols A = n" by (rule is_mat_ncols[OF A n])
  have ncB: "ncols (zeros n m) = m" by (rule ncols_zeros[OF n])
  have lA: "length A = n" by (rule is_mat_length[OF A])
  have r0: "residual A (zeros n m) (zeros n m) = 0" by (rule residual_zeros[OF n lA])
  have nonneg: "\<And>Y. 0 \<le> residual A (zeros n m) Y"
    unfolding residual_def by (rule sq_norm_nonneg)
  have z: "min_norm_lstsq A (zeros n m) (zeros n m)"
    unfolding min_norm_lstsq_def ncA ncB
    using nonneg by (auto simp: is_mat_zeros r0 sq_norm_zeros sq_norm_nonneg)
  have "X = zeros n m" if X: "min_norm_lstsq A (zeros n m) X"
  proof -
    have mX: "is_mat n m X"
      and least: "residual A (zeros n m) X \<le> residual A (zeros n m) (zeros n m)"
      and norm: "residual A (zeros n m) (zeros n m) = residual A (zeros n m) X
                  \<longrightarrow> sq_norm X \<le> sq_norm (zeros n m)"
      using X is_mat_zeros[of n m] unfolding min_norm_lstsq_def ncA ncB by auto
    have "residual A (zeros n m) X = 0" using least nonneg[of X] by (simp add: r0)
    then have "sq_norm X \<le> 0" using norm by (simp add: r0 sq_norm_zeros)
    then have "sq_norm X = 0" using sq_norm_nonneg[of X] by simp
    then show ?thesis using mX by (rule sq_norm_zero_is_zeros)
  qed
  then show ?thesis using z by blast
qed

lemma np_lstsq_zero:
  assumes A: "is_mat n n A" and n: "0 < n" and m: "0 < m"
  shows "np_lstsq A (zeros n m) = zeros n m"
  unfolding np_lstsq_def
  by (rule the_equality) (simp_all add: min_norm_lstsq_zero[OF assms])

lemma mat_T_zeros:
  assumes "0 < a"
  shows "mat_T (zeros a b) = zeros b a"
proof (rule mat_eqI[where m=b and n=a])
  show "is_mat b a (mat_T (zeros a b))"
    using is_mat_mat_T[of "zeros a b"]
    by (simp add: ncols_zeros[OF assms] is_mat_length[OF is_mat_zeros])
  show "is_mat b a (zeros b a)" by (rule is_mat_zeros)
next
  fix i j assume "i < b" "j < a"
  then show "mat_T (zeros a b) ! i ! j = zeros b a ! i ! j"
    by (simp add: mat_T_nth ncols_zeros[OF assms] zeros_nth is_mat_length[OF is_mat_zeros])
qed


lemma fold_weights_blocks: "fold_weights lstsq (L\<lparr>blocks := b\<rparr>) sp = fold_weights lstsq L sp"
  by (simp add: fold_weights_def computeWeights_def Let_def cong: sum.case_cong)

lemma weights_loop_closed:
  assumes "\<And>sp. sp \<in> set sps \<Longrightarrow> fold_weights lstsq L sp = Inr (W sp)"
  shows "weights_loop lstsq L sps = Inr (L\<lparr>blocks := blocks L @ map W sps\<rparr>)"
  using assms
proof (induction sps arbitrary: L)
  case Nil
  then show ?case by simp
next
  case (Cons sp sps)
  have h: "fold_weights lstsq L sp = Inr (W sp)" by (rule Cons.prems) simp
  let ?L1 = "L\<lparr>blocks := blocks L @ [W sp]\<rparr>"
  have "\<And>sp'. sp' \<in> set sps \<Longrightarrow> fold_weights lstsq ?L1 sp' = Inr (W sp')"
    using Cons.prems by (simp add: fold_weights_blocks)
  then have "weights_loop lstsq ?L1 sps = Inr (?L1\<lparr>blocks := blocks ?L1 @ map W sps\<rparr>)"
    by (rule Cons.IH)
  then show ?case using h by simp
qed

lemma scale_nonbias_columns_zeros: "scale_nonbias_columns c (zeros a b) = zeros a b"
  by (rule mat_eqI[where m=a and n=b])
     (simp_all add: is_mat_def scale_nonbias_columns_def zeros_def list_all_length)

lemma Q_closed_zeros: "Q_closed c (zeros (Suc r) (Suc r)) r = zeros (Suc r) (Suc r)"
  by (rule mat_eqI[where m="Suc r" and n="Suc r"])
     (simp_all add: is_mat_Q_closed is_mat_zeros Q_closed_nth Q_entry_def zeros_nth)

lemma Q_spec_zeros: "Q_spec c (zeros (Suc r) (Suc r)) r = zeros (Suc r) (Suc r)"
proof (rule mat_eqI[where m="Suc r" and n="Suc r"])
  show "is_mat (Suc r) (Suc r) (Q_spec c (zeros (Suc r) (Suc r)) r)"
    by (simp add: Q_spec_def is_mat_def list_all_length del: upt_Suc)
  show "is_mat (Suc r) (Suc r) (zeros (Suc r) (Suc r))" by (rule is_mat_zeros)
next
  fix i j assume "i < Suc r" "j < Suc r"
  then show "Q_spec c (zeros (Suc r) (Suc r)) r ! i ! j = zeros (Suc r) (Suc r) ! i ! j"
    by (simp add: Q_spec_def zeros_nth del: upt_Suc)
qed

text \<open>
  The system of a fold whose stored matrices are zero, and its solution.
\<close>

lemma zero_fold_system:
  fixes L :: layer and r a :: nat
  assumes Z_def: "Z = zeros (Suc r) (Suc r)"
    and n1: "noise L \<noteq> 1" and a: "0 < a"
    and P: "P = None \<and> a = Suc r \<or> P = Some (zeros a (Suc r))"
  shows "computeQ (noise L) Z = Inr (Q_spec (noise L) Z r)"
    and "min_norm_lstsq (mat_plus (Q_spec (noise L) Z r) (reg_spec (lambda' L) r))
           (mat_T (scale_nonbias_columns (noise L) (case P of None \<Rightarrow> Z | Some Pm \<Rightarrow> Pm)))
           (zeros (Suc r) a)"
    and "fold_weights np_lstsq L (Z, P) = Inr (mat_T (zeros (Suc r) a))"
proof -
  have mZ: "is_mat (Suc r) (Suc r) Z" by (simp add: Z_def is_mat_zeros)
  have q: "Q_closed (noise L) Z r = Q_spec (noise L) Z r"
    by (simp add: Z_def Q_closed_zeros Q_spec_zeros)
  show "computeQ (noise L) Z = Inr (Q_spec (noise L) Z r)"
    using computeQ_closed[OF mZ n1] q by simp
  have A: "mat_plus (Q_spec (noise L) Z r) (reg_spec (lambda' L) r) = reg_spec (lambda' L) r"
    by (simp add: Z_def Q_spec_zeros mat_plus_zeros_left[OF is_mat_reg_spec])
  have P0: "(case P of None \<Rightarrow> Z | Some Pm \<Rightarrow> Pm) = zeros a (Suc r)"
    using P by (auto simp: Z_def)
  have B: "mat_T (scale_nonbias_columns (noise L) (case P of None \<Rightarrow> Z | Some Pm \<Rightarrow> Pm))
      = zeros (Suc r) a"
    by (simp add: P0 scale_nonbias_columns_zeros mat_T_zeros[OF a])
  have mn: "min_norm_lstsq (reg_spec (lambda' L) r) (zeros (Suc r) a) (zeros (Suc r) a)"
    using min_norm_lstsq_zero[OF is_mat_reg_spec _ a, of r "lambda' L" "zeros (Suc r) a"] by simp
  show "min_norm_lstsq (mat_plus (Q_spec (noise L) Z r) (reg_spec (lambda' L) r))
           (mat_T (scale_nonbias_columns (noise L) (case P of None \<Rightarrow> Z | Some Pm \<Rightarrow> Pm)))
           (zeros (Suc r) a)"
    unfolding A B by (rule mn)
  have "np_lstsq (reg_spec (lambda' L) r) (zeros (Suc r) a) = zeros (Suc r) a"
    by (rule np_lstsq_zero[OF is_mat_reg_spec _ a]) simp
  then show "fold_weights np_lstsq L (Z, P) = Inr (mat_T (zeros (Suc r) a))"
    using A B q
    by (simp add: fold_weights_closed[OF mZ n1] regularised_moment_def target_system_def)
qed

lemma stored_zero_form:
  assumes wf: "well_formed L"
  shows "\<exists>r a P. stored_zero L k = (zeros (Suc r) (Suc r), P) \<and> 0 < a
           \<and> (P = None \<and> a = Suc r \<or> P = Some (zeros a (Suc r)))"
proof (cases "prototype_ids L")
  case None
  then show ?thesis by (auto simp: stored_zero_def)
next
  case (Some ids)
  have "0 < output_dimensionality L" using wf by (simp add: well_formed_def)
  then show ?thesis using Some by (auto simp: stored_zero_def)
qed

text \<open>
  Every fold that the pass of a well-formed layer leaves is solved without an error, and
  its weights are the transpose of the minimum-norm least-squares solution of the
  fold's system.
\<close>

lemma stored_fold_solved:
  assumes wf: "well_formed L"
  shows "\<exists>X. computeQ (noise L) (fst (stored_zero L k))
               = Inr (Q_spec (noise L) (fst (stored_zero L k)) (length (fst (stored_zero L k)) - 1))
           \<and> min_norm_lstsq
               (mat_plus (Q_spec (noise L) (fst (stored_zero L k)) (length (fst (stored_zero L k)) - 1))
                  (reg_spec (lambda' L) (length (fst (stored_zero L k)) - 1)))
               (mat_T (scale_nonbias_columns (noise L)
                  (case snd (stored_zero L k) of None \<Rightarrow> fst (stored_zero L k) | Some Pm \<Rightarrow> Pm))) X
           \<and> fold_weights np_lstsq L (stored_zero L k) = Inr (mat_T X)"
proof -
  obtain r a P where s: "stored_zero L k = (zeros (Suc r) (Suc r), P)" and a: "0 < a"
    and P: "P = None \<and> a = Suc r \<or> P = Some (zeros a (Suc r))"
    using stored_zero_form[OF wf] by blast
  have n1: "noise L \<noteq> 1" using wf by (simp add: well_formed_def)
  have len: "length (zeros (Suc r) (Suc r)) - 1 = r" by (simp add: zeros_def)
  show ?thesis
    unfolding s fst_conv snd_conv len
    using zero_fold_system[OF refl n1 a P] by blast
qed

lemma train_closed:
  assumes wf: "well_formed L"
    and W: "\<And>k. fold_weights lstsq L (stored_zero L k) = Inr (W (stored_zero L k))"
  shows "train lstsq L corpus chunksize
       = Inr (L\<lparr>blocks := blocks L @ map W (if corpus = [] \<or> chunksize = 0 then [] else stored_state L)\<rparr>)"
proof -
  have chk: "\<not> (input_dimensionality L \<noteq> output_dimensionality L \<and> prototype_ids L = None)"
    using wf by (auto simp: well_formed_def)
  have "weights_loop lstsq L (if corpus = [] \<or> chunksize = 0 then [] else stored_state L)
      = Inr (L\<lparr>blocks := blocks L @ map W (if corpus = [] \<or> chunksize = 0 then [] else stored_state L)\<rparr>)"
    by (rule weights_loop_closed) (auto simp: stored_state_def W split: if_splits)
  then show ?thesis
    using chk build_scatters_stored[OF wf, of corpus chunksize]
    by (simp add: train_def train_over_def build_scatters_def)
qed


lemma train_np_lstsq:
  assumes wf: "well_formed L"
  shows "train np_lstsq L corpus chunksize
           = Inr (L\<lparr>blocks := blocks L @ map (\<lambda>sp. projr (fold_weights np_lstsq L sp))
                     (if corpus = [] \<or> chunksize = 0 then [] else stored_state L)\<rparr>)"
proof -
  have "fold_weights np_lstsq L (stored_zero L k)
      = Inr (projr (fold_weights np_lstsq L (stored_zero L k)))" for k
    using stored_fold_solved[OF wf, of k] by auto
  then show ?thesis by (rule train_closed[OF wf])
qed










section \<open>The float64 values of tanh\<close>















section \<open>Training twice\<close>

lemma well_formed_blocks: "well_formed (L\<lparr>blocks := b\<rparr>) = well_formed L"
  by (simp add: well_formed_def cong: option.case_cong)

lemma block_hidden_more_blocks:
  assumes "k < length (blocks L)"
  shows "block_hidden (L\<lparr>blocks := blocks L @ ws\<rparr>) X k = block_hidden L X k"
  using assms by (simp add: block_hidden_def block_indices_def nth_append cong: sum.case_cong)

lemma hidden_loop_more_blocks:
  assumes "\<And>k. k \<in> set ks \<Longrightarrow> k < length (blocks L)"
  shows "hidden_loop (L\<lparr>blocks := blocks L @ ws\<rparr>) X avg ks = hidden_loop L X avg ks"
  using assms
proof (induction ks arbitrary: avg)
  case Nil
  then show ?case by simp
next
  case (Cons k ks)
  have "block_hidden (L\<lparr>blocks := blocks L @ ws\<rparr>) X k = block_hidden L X k"
    using Cons.prems by (simp add: block_hidden_more_blocks)
  then show ?case using Cons by (simp split: sum.splits option.splits)
qed

lemma get_hidden_more_blocks:
  assumes "num_folds L \<le> length (blocks L)"
  shows "get_hidden_representations (L\<lparr>blocks := blocks L @ ws\<rparr>) X
           = get_hidden_representations L X"
    and "get_hidden_representations_float64 (L\<lparr>blocks := blocks L @ ws\<rparr>) X
           = get_hidden_representations_float64 L X"
proof -
  have "hidden_loop (L\<lparr>blocks := blocks L @ ws\<rparr>) X None [0..<num_folds L]
      = hidden_loop L X None [0..<num_folds L]"
    using assms by (intro hidden_loop_more_blocks) simp
  then show "get_hidden_representations (L\<lparr>blocks := blocks L @ ws\<rparr>) X
           = get_hidden_representations L X"
    and "get_hidden_representations_float64 (L\<lparr>blocks := blocks L @ ws\<rparr>) X
           = get_hidden_representations_float64 L X"
    by (simp_all add: get_hidden_representations_def get_hidden_representations_float64_def)
qed

text \<open>
  Training the layer with one input dimension and no target dimensions: one weight
  matrix of zeros is appended, unless the iterator yields no chunk.
\<close>

lemma train_one_dimension:
  "train np_lstsq
     \<lparr>noise = 1/2, lambda' = 1, input_dimensionality = 1, output_dimensionality = 1,
      randomized_indices = [0], prototype_ids = None, num_folds = 1, blocks = b\<rparr>
     corpus chunksize
   = Inr \<lparr>noise = 1/2, lambda' = 1, input_dimensionality = 1, output_dimensionality = 1,
          randomized_indices = [0], prototype_ids = None, num_folds = 1,
          blocks = b @ (if corpus = [] \<or> chunksize = 0 then [] else [[[0, 0], [0, 0]]])\<rparr>"
proof -
  define L where "L = \<lparr>noise = 1/2, lambda' = 1, input_dimensionality = 1,
      output_dimensionality = 1, randomized_indices = [0], prototype_ids = None,
      num_folds = 1, blocks = b\<rparr>"
  have wf: "well_formed L"
    by (simp add: L_def well_formed_def is_permutation_def)
  define Z where "Z = zeros (Suc 1) (Suc 1)"
  have st: "stored_state L = [(Z, None)]"
    by (simp add: L_def Z_def stored_state_def stored_zero_def block_indices_def)
  have n1: "noise L \<noteq> 1" by (simp add: L_def)
  have "fold_weights np_lstsq L (Z, None) = Inr (mat_T (zeros (Suc 1) 2))"
    by (rule zero_fold_system(3)[OF Z_def n1]) simp_all
  moreover have "mat_T (zeros (Suc 1) 2) = [[0, 0], [0, 0]]"
    by code_simp
  ultimately have w: "projr (fold_weights np_lstsq L (Z, None)) = [[0, 0], [0, 0]]"
    by simp
  have "train np_lstsq L corpus chunksize
      = Inr (L\<lparr>blocks := blocks L @ (if corpus = [] \<or> chunksize = 0 then [] else [[[0, 0], [0, 0]]])\<rparr>)"
    using train_np_lstsq[OF wf, of corpus chunksize] by (simp add: st w)
  then show ?thesis by (simp add: L_def)
qed

text \<open>
  C10, as the specification states it, fails when the second call finds no chunk: after
  a first training that left one weight matrix, a second call on an empty corpus returns
  the layer as it was, with \<open>num_folds\<close> and not \<open>2 * num_folds\<close> weight matrices.
\<close>

theorem second_train_on_empty_corpus_appends_nothing:
  "train np_lstsq
     \<lparr>noise = 1/2, lambda' = 1, input_dimensionality = 1, output_dimensionality = 1,
      randomized_indices = [0], prototype_ids = None, num_folds = 1, blocks = []\<rparr>
     [\<lambda>i. 1, \<lambda>i. 3] 1
   = Inr \<lparr>noise = 1/2, lambda' = 1, input_dimensionality = 1, output_dimensionality = 1,
          randomized_indices = [0], prototype_ids = None, num_folds = 1,
          blocks = [[[0, 0], [0, 0]]]\<rparr>
   \<and> train np_lstsq
     \<lparr>noise = 1/2, lambda' = 1, input_dimensionality = 1, output_dimensionality = 1,
      randomized_indices = [0], prototype_ids = None, num_folds = 1,
      blocks = [[[0, 0], [0, 0]]]\<rparr>
     [] 1
   = Inr \<lparr>noise = 1/2, lambda' = 1, input_dimensionality = 1, output_dimensionality = 1,
          randomized_indices = [0], prototype_ids = None, num_folds = 1,
          blocks = [[[0, 0], [0, 0]]]\<rparr>
   \<and> length (blocks
       \<lparr>noise = 1/2, lambda' = 1, input_dimensionality = 1, output_dimensionality = 1,
        randomized_indices = [0], prototype_ids = None, num_folds = 1,
        blocks = [[[0, 0], [0, 0]]]\<rparr>)
     \<noteq> 2 * num_folds
       \<lparr>noise = 1/2, lambda' = 1, input_dimensionality = 1, output_dimensionality = 1,
        randomized_indices = [0], prototype_ids = None, num_folds = 1,
        blocks = [[[0, 0], [0, 0]]]\<rparr>"
  using train_one_dimension[of "[]" "[\<lambda>i. 1, \<lambda>i. 3]" 1]
    train_one_dimension[of "[[[0, 0], [0, 0]]]" "[]" 1]
  by simp

text \<open>
  C10, amended. A well-formed layer without weights is trained on a non-empty corpus
  with a chunk size of at least 1, and then trained again, on any corpus with any chunk
  size. Both calls return a layer. The first leaves \<open>num_folds\<close> weight matrices in
  \<open>blocks\<close>. The second appends \<open>num_folds\<close> further matrices, so that \<open>blocks\<close> holds
  \<open>2 * num_folds\<close>, when its corpus is not empty and its chunk size is not 0, and appends
  nothing otherwise; in both cases the first \<open>num_folds\<close> matrices are those of the first
  call. Inference on the layer trained twice returns what inference on the layer trained
  once returns, for every input, in exact arithmetic and in float64; and it returns the
  same whatever matrices follow those of the first call.
\<close>

theorem second_train_keeps_first_weights:
  assumes "well_formed L" and "blocks L = []" and "0 < chunksize1" and "corpus1 \<noteq> []"
  shows "\<exists>L1 L2. train np_lstsq L corpus1 chunksize1 = Inr L1
           \<and> train np_lstsq L1 corpus2 chunksize2 = Inr L2
           \<and> num_folds L1 = num_folds L \<and> num_folds L2 = num_folds L
           \<and> length (blocks L1) = num_folds L
           \<and> length (blocks L2)
               = (if corpus2 = [] \<or> chunksize2 = 0 then num_folds L else 2 * num_folds L)
           \<and> take (num_folds L) (blocks L2) = blocks L1
           \<and> (\<forall>X. get_hidden_representations L2 X = get_hidden_representations L1 X)
           \<and> (\<forall>X. get_hidden_representations_float64 L2 X
                    = get_hidden_representations_float64 L1 X)
           \<and> (\<forall>ws X. get_hidden_representations_float64 (L1\<lparr>blocks := blocks L1 @ ws\<rparr>) X
                    = get_hidden_representations_float64 L1 X)"
proof -
  define ws1 where "ws1 = map (\<lambda>sp. projr (fold_weights np_lstsq L sp)) (stored_state L)"
  define L1 where "L1 = L\<lparr>blocks := blocks L @ ws1\<rparr>"
  define ws2 where "ws2 = map (\<lambda>sp. projr (fold_weights np_lstsq L1 sp))
      (if corpus2 = [] \<or> chunksize2 = 0 then [] else stored_state L1)"
  define L2 where "L2 = L1\<lparr>blocks := blocks L1 @ ws2\<rparr>"
  have t1: "train np_lstsq L corpus1 chunksize1 = Inr L1"
    using train_np_lstsq[OF assms(1), of corpus1 chunksize1] assms(3,4)
    by (simp add: L1_def ws1_def)
  have wf1: "well_formed L1" using assms(1) by (simp add: L1_def well_formed_blocks)
  have t2: "train np_lstsq L1 corpus2 chunksize2 = Inr L2"
    using train_np_lstsq[OF wf1, of corpus2 chunksize2] by (simp add: L2_def ws2_def)
  have nf1: "num_folds L1 = num_folds L" by (simp add: L1_def)
  have nf2: "num_folds L2 = num_folds L" by (simp add: L2_def nf1)
  have l1: "length ws1 = num_folds L" by (simp add: ws1_def length_stored_state)
  have b1: "blocks L1 = ws1" using assms(2) by (simp add: L1_def)
  have len1: "length (blocks L1) = num_folds L" using l1 b1 by simp
  have len2: "length (blocks L2)
      = (if corpus2 = [] \<or> chunksize2 = 0 then num_folds L else 2 * num_folds L)"
    using len1 by (simp add: L2_def ws2_def length_stored_state nf1)
  have tk: "take (num_folds L) (blocks L2) = blocks L1"
    using len1 by (simp add: L2_def)
  have le: "num_folds L1 \<le> length (blocks L1)" using len1 nf1 by simp
  have i1: "get_hidden_representations L2 X = get_hidden_representations L1 X" for X
    unfolding L2_def by (rule get_hidden_more_blocks(1)[OF le])
  have i2: "get_hidden_representations_float64 (L1\<lparr>blocks := blocks L1 @ ws\<rparr>) X
      = get_hidden_representations_float64 L1 X" for ws X
    by (rule get_hidden_more_blocks(2)[OF le])
  have i3: "get_hidden_representations_float64 L2 X = get_hidden_representations_float64 L1 X"
    for X
    unfolding L2_def by (rule i2)
  show ?thesis
    using t1 t2 nf1 nf2 len1 len2 tk i1 i2 i3 by blast
qed

theorem second_train_keeps_first_weights_witness:
  "well_formed
     \<lparr>noise = 1/2, lambda' = 1, input_dimensionality = 1, output_dimensionality = 1,
      randomized_indices = [0], prototype_ids = None, num_folds = 1, blocks = []\<rparr>
   \<and> train np_lstsq
       \<lparr>noise = 1/2, lambda' = 1, input_dimensionality = 1, output_dimensionality = 1,
        randomized_indices = [0], prototype_ids = None, num_folds = 1, blocks = []\<rparr>
       [\<lambda>i. 1, \<lambda>i. 3] 1
     = Inr \<lparr>noise = 1/2, lambda' = 1, input_dimensionality = 1, output_dimensionality = 1,
            randomized_indices = [0], prototype_ids = None, num_folds = 1,
            blocks = [[[0, 0], [0, 0]]]\<rparr>
   \<and> train np_lstsq
       \<lparr>noise = 1/2, lambda' = 1, input_dimensionality = 1, output_dimensionality = 1,
        randomized_indices = [0], prototype_ids = None, num_folds = 1,
        blocks = [[[0, 0], [0, 0]]]\<rparr>
       [\<lambda>i. 2] 1
     = Inr \<lparr>noise = 1/2, lambda' = 1, input_dimensionality = 1, output_dimensionality = 1,
            randomized_indices = [0], prototype_ids = None, num_folds = 1,
            blocks = [[[0, 0], [0, 0]], [[0, 0], [0, 0]]]\<rparr>
   \<and> get_hidden_representations_float64
       \<lparr>noise = 1/2, lambda' = 1, input_dimensionality = 1, output_dimensionality = 1,
        randomized_indices = [0], prototype_ids = None, num_folds = 1,
        blocks = [[[0, 0], [0, 0]], [[0, 0], [0, 0]]]\<rparr> [[7]]
     = get_hidden_representations_float64
       \<lparr>noise = 1/2, lambda' = 1, input_dimensionality = 1, output_dimensionality = 1,
        randomized_indices = [0], prototype_ids = None, num_folds = 1,
        blocks = [[[0, 0], [0, 0]]]\<rparr> [[7]]"
proof -
  let ?L = "\<lparr>noise = 1/2, lambda' = 1, input_dimensionality = 1, output_dimensionality = 1,
        randomized_indices = [0], prototype_ids = None, num_folds = 1, blocks = []\<rparr>"
  let ?L1 = "\<lparr>noise = 1/2, lambda' = 1, input_dimensionality = 1, output_dimensionality = 1,
        randomized_indices = [0], prototype_ids = None, num_folds = 1,
        blocks = [[[0, 0], [0, 0]]]\<rparr>"
  let ?L2 = "\<lparr>noise = 1/2, lambda' = 1, input_dimensionality = 1, output_dimensionality = 1,
        randomized_indices = [0], prototype_ids = None, num_folds = 1,
        blocks = [[[0, 0], [0, 0]], [[0, 0], [0, 0]]]\<rparr>"
  have wf: "well_formed ?L"
    by (simp add: well_formed_def is_permutation_def)
  have b: "blocks ?L = []" by simp
  have c: "0 < (1::nat)" by simp
  have n1: "[\<lambda>i. 1, \<lambda>i. 3] \<noteq> ([] :: doc list)" by simp
  have t1: "train np_lstsq ?L [\<lambda>i. 1, \<lambda>i. 3] 1 = Inr ?L1"
    using train_one_dimension[of "[]" "[\<lambda>i. 1, \<lambda>i. 3]" 1] by simp
  have t2: "train np_lstsq ?L1 [\<lambda>i. 2] 1 = Inr ?L2"
    using train_one_dimension[of "[[[0, 0], [0, 0]]]" "[\<lambda>i. 2]" 1] by simp
  obtain L1 L2 where r: "train np_lstsq ?L [\<lambda>i. 1, \<lambda>i. 3] 1 = Inr L1"
      "train np_lstsq L1 [\<lambda>i. 2] 1 = Inr L2"
      "\<forall>X. get_hidden_representations_float64 L2 X = get_hidden_representations_float64 L1 X"
    using second_train_keeps_first_weights[OF wf b c n1, of "[\<lambda>i. 2]" 1]
    by blast
  have e1: "L1 = ?L1" using r(1) t1 by simp
  then have e2: "L2 = ?L2" using r(2) t2 by simp
  have "get_hidden_representations_float64 ?L2 [[7]] = get_hidden_representations_float64 ?L1 [[7]]"
    using r(3) unfolding e1 e2 by blast
  then show ?thesis using wf t1 t2 by simp
qed

end
